theory Spec2Isabelle
  imports Main "HOL-Library.Monad_Syntax"
begin

section \<open>Semi-structured values\<close>

text \<open>
  Credentials are untyped JSON documents. \<open>JUndef\<close> is JavaScript's \<open>undefined\<close>: the
  value of a property that is absent, and the content of an array slot that was never
  written. An object is an association list in insertion order with distinct keys.
  Properties inherited from prototypes (methods of arrays and strings) are no JSON values
  and are read as \<open>JUndef\<close>.
\<close>

datatype json =
    JUndef
  | JNull
  | JBool bool
  | JNum int
  | JStr string
  | JArr "json list"
  | JObj "(string \<times> json) list"

text \<open>A path segment as the path resolver reports it: a property name or an array index.\<close>

datatype seg = SKey string | SIdx nat

definition digit_char :: "nat \<Rightarrow> char" where
  "digit_char n = ''0123456789'' ! n"

text \<open>The decimal rendering of an index, as in a template literal or a property name.\<close>

function string_of_nat :: "nat \<Rightarrow> string" where
  "string_of_nat n =
     (if n < 10 then [digit_char n] else string_of_nat (n div 10) @ [digit_char (n mod 10)])"
  by pat_completeness auto
termination
  by (relation "measure id") auto

declare string_of_nat.simps [simp del]

fun seg_key :: "seg \<Rightarrow> string" where
  "seg_key (SKey k) = k"
| "seg_key (SIdx n) = string_of_nat n"

fun is_string_seg :: "seg \<Rightarrow> bool" where
  "is_string_seg (SKey _) = True"
| "is_string_seg (SIdx _) = False"

definition lookup :: "(string \<times> json) list \<Rightarrow> string \<Rightarrow> json" where
  "lookup kvs k = (case map_of kvs k of None \<Rightarrow> JUndef | Some v \<Rightarrow> v)"

definition nth_or_undef :: "json list \<Rightarrow> nat \<Rightarrow> json" where
  "nth_or_undef xs n = (if n < length xs then xs ! n else JUndef)"

definition index_of_key :: "nat \<Rightarrow> string \<Rightarrow> nat option" where
  "index_of_key len k = find (\<lambda>i. string_of_nat i = k) [0..<len]"

text \<open>
  \<open>base[seg]\<close>. Reading a property of \<open>undefined\<close> or \<open>null\<close> throws a TypeError, which
  is \<open>None\<close> here; every other read succeeds, with \<open>undefined\<close> for what is not there.
\<close>

fun js_get :: "json \<Rightarrow> seg \<Rightarrow> json option" where
  "js_get JUndef _ = None"
| "js_get JNull _ = None"
| "js_get (JObj kvs) s = Some (lookup kvs (seg_key s))"
| "js_get (JArr xs) (SIdx n) = Some (nth_or_undef xs n)"
| "js_get (JArr xs) (SKey k) =
     Some (if k = ''length'' then JNum (int (length xs))
           else (case index_of_key (length xs) k of
                   Some i \<Rightarrow> nth_or_undef xs i | None \<Rightarrow> JUndef))"
| "js_get (JStr cs) (SIdx n) = Some (if n < length cs then JStr [cs ! n] else JUndef)"
| "js_get (JStr cs) (SKey k) =
     Some (if k = ''length'' then JNum (int (length cs))
           else (case index_of_key (length cs) k of
                   Some i \<Rightarrow> JStr [cs ! i] | None \<Rightarrow> JUndef))"
| "js_get (JBool _) _ = Some JUndef"
| "js_get (JNum _) _ = Some JUndef"

text \<open>JavaScript truthiness, as tested by \<open>if (v)\<close>.\<close>

fun truthy :: "json \<Rightarrow> bool" where
  "truthy JUndef = False"
| "truthy JNull = False"
| "truthy (JBool b) = b"
| "truthy (JNum n) = (n \<noteq> 0)"
| "truthy (JStr s) = (s \<noteq> [])"
| "truthy (JArr _) = True"
| "truthy (JObj _) = True"

section \<open>Definitions, results and the evaluation context\<close>

datatype PEVersion = v1 | v2

datatype Status = INFO | WARN | ERROR

datatype Optionality = Required | Preferred

text \<open>The members of the message enumeration that the handlers refer to.\<close>

datatype PexMessages =
    URI_EVALUATION_PASSED
  | URI_EVALUATION_DIDNT_PASS
  | INPUT_DESCRIPTOR_CONTEXT_CONTAINS_HASHLINK_VERIFICATION_NOT_SUPPORTED

datatype message = Pex PexMessages | Literal string

datatype payload =
    UriPayload json json "string list"
  | MessagePayload PexMessages
  | SegmentsPayload "seg list"
  | PathPayload "string list"

record Schema =
  uri :: string

record Field =
  path :: "string list"

record Constraints =
  limit_disclosure :: "Optionality option"
  fields_c :: "Field list"

record InputDescriptor =
  id_in :: string
  schema :: "Schema list"
  constraints :: "Constraints option"

record PresentationDefinition =
  id_pd :: string
  getVersion :: PEVersion
  input_descriptors :: "InputDescriptor list"

record WrappedVerifiableCredential =
  credential :: json

record HandlerCheckResult =
  input_descriptor_path :: string
  verifiable_credential_path :: string
  evaluator :: string
  status :: Status
  message :: "message option"
  payload :: "payload option"

record Descriptor =
  id_d :: string
  format :: string
  path_d :: string

record PresentationSubmission =
  id_ps :: string
  definition_id :: string
  descriptor_map :: "Descriptor list"

text \<open>
  The state shared by the handlers of one run: the result log and the presentation under
  construction, whose credential list and submission may both be absent.
\<close>

record EvaluationClient =
  results :: "HandlerCheckResult list"
  verifiableCredential :: "json list option"
  presentationSubmission :: "PresentationSubmission option"

section \<open>The URI evaluation handler\<close>

definition uri_getName :: string where
  "uri_getName = ''UriEvaluation''"

definition createResult :: "nat \<Rightarrow> nat \<Rightarrow> HandlerCheckResult" where
  "createResult idIdx vcIdx =
     \<lparr> input_descriptor_path = ''$.input_descriptors['' @ string_of_nat idIdx @ '']'',
       verifiable_credential_path = ''$['' @ string_of_nat vcIdx @ '']'',
       evaluator = uri_getName,
       status = INFO,
       message = None,
       payload = None \<rparr>"

definition uri_payload :: "WrappedVerifiableCredential \<Rightarrow> string list \<Rightarrow> payload option" where
  "uri_payload wvc inputDescriptorsUris = do {
     vcContext \<leftarrow> js_get (credential wvc) (SKey ''@context'');
     vcCredentialSchema \<leftarrow> js_get (credential wvc) (SKey ''credentialSchema'');
     Some (UriPayload vcContext vcCredentialSchema inputDescriptorsUris)
   }"

definition createSuccessResultObject ::
  "WrappedVerifiableCredential \<Rightarrow> string list \<Rightarrow> nat \<Rightarrow> nat \<Rightarrow> HandlerCheckResult option" where
  "createSuccessResultObject wvc inputDescriptorsUris idIdx vcIdx = do {
     p \<leftarrow> uri_payload wvc inputDescriptorsUris;
     Some ((createResult idIdx vcIdx)
       \<lparr> status := INFO, message := Some (Pex URI_EVALUATION_PASSED), payload := Some p \<rparr>)
   }"

definition createErrorResultObject ::
  "WrappedVerifiableCredential \<Rightarrow> string list \<Rightarrow> nat \<Rightarrow> nat \<Rightarrow> HandlerCheckResult option" where
  "createErrorResultObject wvc inputDescriptorsUris idIdx vcIdx = do {
     p \<leftarrow> uri_payload wvc inputDescriptorsUris;
     Some ((createResult idIdx vcIdx)
       \<lparr> status := ERROR, message := Some (Pex URI_EVALUATION_DIDNT_PASS), payload := Some p \<rparr>)
   }"

definition createWarnResultObject :: "nat \<Rightarrow> nat \<Rightarrow> HandlerCheckResult" where
  "createWarnResultObject idIdx vcIdx =
     (createResult idIdx vcIdx)
       \<lparr> status := WARN,
         message := Some (Pex URI_EVALUATION_DIDNT_PASS),
         payload := Some (MessagePayload
           INPUT_DESCRIPTOR_CONTEXT_CONTAINS_HASHLINK_VERIFICATION_NOT_SUPPORTED) \<rparr>"

text \<open>
  \<open>buildVcContextAndSchemaUris\<close>: the entries come from \<open>@context\<close>, then
  \<open>credentialSchema\<close>, then \<open>type\<close>. An entry is whatever value the credential holds
  there, \<open>undefined\<close> included.
\<close>

definition buildVcContextAndSchemaUris :: "json \<Rightarrow> json list option" where
  "buildVcContextAndSchemaUris cred = do {
     ctx \<leftarrow> js_get cred (SKey ''@context'');
     let uris1 = (case ctx of JArr vs \<Rightarrow> vs | _ \<Rightarrow> [ctx]);
     cs \<leftarrow> js_get cred (SKey ''credentialSchema'');
     uris2 \<leftarrow> (case cs of
                 JArr (e # es) \<Rightarrow> those (map (\<lambda>element. js_get element (SKey ''id'')) (e # es))
               | _ \<Rightarrow> if truthy cs
                      then do { i \<leftarrow> js_get cs (SKey ''id''); Some [i] }
                      else Some []);
     ty \<leftarrow> js_get cred (SKey ''type'');
     let uris3 = (case ty of JArr vs \<Rightarrow> vs | _ \<Rightarrow> if truthy ty then [ty] else []);
     Some (uris1 @ uris2 @ uris3)
   }"

subsection \<open>Hashlink detection\<close>

text \<open>
  The two regular expressions of the handler use literals, an optional literal, bounded
  and unbounded repetition of a character class, and a word boundary. A pattern is the
  sequence of its items; whether it matches somewhere does not depend on greediness.
\<close>

datatype rx_item =
    Lit string
  | Opt string
  | Rep "char \<Rightarrow> bool" nat "nat option"
  | WordBoundary

definition alnum :: "char \<Rightarrow> bool" where
  "alnum c = (let n = (of_char c :: nat) in
     (48 \<le> n \<and> n \<le> 57) \<or> (65 \<le> n \<and> n \<le> 90) \<or> (97 \<le> n \<and> n \<le> 122))"

definition word_char :: "char \<Rightarrow> bool" where
  "word_char c = (alnum c \<or> c = CHR ''_'')"

definition word_at :: "string \<Rightarrow> nat \<Rightarrow> bool" where
  "word_at s i = (i < length s \<and> word_char (s ! i))"

definition lit_ends :: "string \<Rightarrow> string \<Rightarrow> nat \<Rightarrow> nat list" where
  "lit_ends cs s i = (if take (length cs) (drop i s) = cs then [i + length cs] else [])"

text \<open>The positions at which an item that starts at position \<open>i\<close> of \<open>s\<close> can end.\<close>

fun item_ends :: "rx_item \<Rightarrow> string \<Rightarrow> nat \<Rightarrow> nat list" where
  "item_ends (Lit cs) s i = lit_ends cs s i"
| "item_ends (Opt cs) s i = lit_ends cs s i @ [i]"
| "item_ends (Rep cls lo hi) s i =
     (let run = length (takeWhile cls (drop i s));
          top = (case hi of None \<Rightarrow> run | Some h \<Rightarrow> min h run)
      in map (\<lambda>n. i + n) [lo..<Suc top])"
| "item_ends WordBoundary s i =
     (if (0 < i \<and> word_at s (i - 1)) \<noteq> word_at s i then [i] else [])"

fun rx_ends :: "rx_item list \<Rightarrow> string \<Rightarrow> nat \<Rightarrow> nat list" where
  "rx_ends [] s i = [i]"
| "rx_ends (r # rs) s i = concat (map (rx_ends rs s) (item_ends r s i))"

text \<open>\<open>matchAll(s, rx).next().done\<close> is false exactly when the pattern matches somewhere.\<close>

definition has_match :: "rx_item list \<Rightarrow> string \<Rightarrow> bool" where
  "has_match rx s = list_ex (\<lambda>i. rx_ends rx s i \<noteq> []) [0..<Suc (length s)]"

definition HASHLINK_URL_ENCODED_REGEX :: "rx_item list" where
  "HASHLINK_URL_ENCODED_REGEX = [Lit ''hl:'', Rep alnum 1 None, Lit '':'', Rep alnum 1 None]"

definition HASHLINK_QUERY_URL_REGEX :: "rx_item list" where
  "HASHLINK_QUERY_URL_REGEX =
     [Lit ''http'', Rep (\<lambda>c. c = CHR ''s'') 0 None, Lit ''://'', Opt ''www.'',
      Rep (\<lambda>c. alnum c \<or> c \<in> set ''-@:%._+~#='') 1 (Some 256),
      Lit ''.'',
      Rep (\<lambda>c. alnum c \<or> c \<in> set ''()'') 1 (Some 6),
      WordBoundary,
      Rep (\<lambda>c. alnum c \<or> c \<in> set ''-()@:%_+.~#?&/='') 0 None,
      Lit ''hl='', Rep alnum 1 None]"

definition containsHashlink :: "string \<Rightarrow> bool" where
  "containsHashlink url =
     (\<not> (\<not> has_match HASHLINK_QUERY_URL_REGEX url \<and> \<not> has_match HASHLINK_URL_ENCODED_REGEX url))"

subsection \<open>Evaluating one descriptor against one credential\<close>

text \<open>The first loop of \<open>evaluateUris\<close>: one warning for each declared URI with a hashlink.\<close>

fun hashlink_loop :: "string list \<Rightarrow> nat \<Rightarrow> nat \<Rightarrow> HandlerCheckResult list \<Rightarrow> HandlerCheckResult list" where
  "hashlink_loop [] idIdx vcIdx rs = rs"
| "hashlink_loop (u # us) idIdx vcIdx rs =
     hashlink_loop us idIdx vcIdx
       (if containsHashlink u then rs @ [createWarnResultObject idIdx vcIdx] else rs)"

text \<open>
  The second loop. \<open>find\<close> returns the declared URI that is strictly equal to the
  credential's entry; a declared URI is a string and so never \<open>undefined\<close>.
\<close>

fun match_loop :: "json list \<Rightarrow> string list \<Rightarrow> bool \<Rightarrow> bool" where
  "match_loop [] inputDescriptorsUris hasAnyMatch = hasAnyMatch"
| "match_loop (v # vs) inputDescriptorsUris hasAnyMatch =
     match_loop vs inputDescriptorsUris
       (if find (\<lambda>el. JStr el = v) inputDescriptorsUris \<noteq> None then True else hasAnyMatch)"

definition evaluateUris ::
  "WrappedVerifiableCredential \<Rightarrow> json list \<Rightarrow> string list \<Rightarrow> nat \<Rightarrow> nat \<Rightarrow> PEVersion \<Rightarrow>
   HandlerCheckResult list \<Rightarrow> HandlerCheckResult list option" where
  "evaluateUris wvc verifiableCredentialUris inputDescriptorsUris idIdx vcIdx pdVersion rs =
     (let (rs1, hasAnyMatch) =
            (if pdVersion = v1
             then (hashlink_loop inputDescriptorsUris idIdx vcIdx rs,
                   match_loop verifiableCredentialUris inputDescriptorsUris False)
             else (rs, True))
      in if hasAnyMatch
         then do { r \<leftarrow> createSuccessResultObject wvc inputDescriptorsUris idIdx vcIdx;
                   Some (rs1 @ [r]) }
         else do { r \<leftarrow> createErrorResultObject wvc inputDescriptorsUris idIdx vcIdx;
                   Some (rs1 @ [r]) })"

subsection \<open>The handler\<close>

fun wvcs_forEach ::
  "PEVersion \<Rightarrow> string list \<Rightarrow> nat \<Rightarrow> nat \<Rightarrow> WrappedVerifiableCredential list \<Rightarrow>
   HandlerCheckResult list \<Rightarrow> HandlerCheckResult list option" where
  "wvcs_forEach ver uris i j [] rs = Some rs"
| "wvcs_forEach ver uris i j (wvc # wvcs) rs = do {
     vcUris \<leftarrow> buildVcContextAndSchemaUris (credential wvc);
     rs' \<leftarrow> evaluateUris wvc vcUris uris i j ver rs;
     wvcs_forEach ver uris i (Suc j) wvcs rs'
   }"

definition descriptor_uris :: "PresentationDefinition \<Rightarrow> InputDescriptor \<Rightarrow> string list" where
  "descriptor_uris d inDesc = (if getVersion d \<noteq> v2 then map uri (schema inDesc) else [])"

fun input_descriptors_forEach ::
  "PresentationDefinition \<Rightarrow> WrappedVerifiableCredential list \<Rightarrow> nat \<Rightarrow> InputDescriptor list \<Rightarrow>
   HandlerCheckResult list \<Rightarrow> HandlerCheckResult list option" where
  "input_descriptors_forEach d wvcs i [] rs = Some rs"
| "input_descriptors_forEach d wvcs i (inDesc # ds) rs = do {
     rs' \<leftarrow> wvcs_forEach (getVersion d) (descriptor_uris d inDesc) i 0 wvcs rs;
     input_descriptors_forEach d wvcs (Suc i) ds rs'
   }"

text \<open>The first statement of \<open>handle\<close>: every descriptor against every credential.\<close>

definition handle_pairs ::
  "PresentationDefinition \<Rightarrow> WrappedVerifiableCredential list \<Rightarrow> HandlerCheckResult list \<Rightarrow>
   HandlerCheckResult list option" where
  "handle_pairs d wvcs rs = input_descriptors_forEach d wvcs 0 (input_descriptors d) rs"

text \<open>
  The path library is a parameter \<open>jp\<close>: \<open>jp d p\<close> are the descriptors that the
  expression \<open>p\<close> selects in \<open>d\<close>, in order. Taking \<open>[0].value\<close> of no node throws.
\<close>

type_synonym resolver = "PresentationDefinition \<Rightarrow> string \<Rightarrow> InputDescriptor list"

definition descriptor_of :: "resolver \<Rightarrow> PresentationDefinition \<Rightarrow> HandlerCheckResult \<Rightarrow> Descriptor option" where
  "descriptor_of jp d e =
     (case jp d (input_descriptor_path e) of
        [] \<Rightarrow> None
      | inputDescriptor # _ \<Rightarrow>
          Some \<lparr> id_d = id_in inputDescriptor, format = ''ldp_vc'',
                 path_d = verifiable_credential_path e \<rparr>)"

definition descriptorMap ::
  "resolver \<Rightarrow> PresentationDefinition \<Rightarrow> HandlerCheckResult list \<Rightarrow> Descriptor list option" where
  "descriptorMap jp d rs = those (map (descriptor_of jp d) (filter (\<lambda>e. status e = INFO) rs))"

text \<open>\<open>handle\<close>; \<open>nanoid\<close> is the identifier that the generator returns in this call.\<close>

definition handle ::
  "resolver \<Rightarrow> string \<Rightarrow> PresentationDefinition \<Rightarrow> WrappedVerifiableCredential list \<Rightarrow>
   EvaluationClient \<Rightarrow> EvaluationClient option" where
  "handle jp nanoid d wvcs client = do {
     rs \<leftarrow> handle_pairs d wvcs (results client);
     dm \<leftarrow> descriptorMap jp d rs;
     Some (client \<lparr> results := rs,
                    presentationSubmission :=
                      Some \<lparr> id_ps = nanoid, definition_id = id_pd d, descriptor_map = dm \<rparr> \<rparr>)
   }"

text \<open>
  Modelled from the spec: the path resolver is an external library; on the addressing
  strings \<open>$.input_descriptors[i]\<close> it selects the descriptor at position \<open>i\<close>.
\<close>

definition jp_nodes :: resolver where
  "jp_nodes d p =
     map snd (filter (\<lambda>(i, x). ''$.input_descriptors['' @ string_of_nat i @ '']'' = p)
                     (enumerate 0 (input_descriptors d)))"

subsection \<open>The extracted URI list, in words\<close>

text \<open>A property read that yields \<open>undefined\<close> where JavaScript would throw.\<close>

definition js_prop :: "json \<Rightarrow> string \<Rightarrow> json" where
  "js_prop v k = (case js_get v (SKey k) of Some x \<Rightarrow> x | None \<Rightarrow> JUndef)"

definition not_nullish :: "json \<Rightarrow> bool" where
  "not_nullish v = (v \<noteq> JUndef \<and> v \<noteq> JNull)"

text \<open>A single value becomes a one-element sequence, a list stays as it is.\<close>

definition flatten_value :: "json \<Rightarrow> json list" where
  "flatten_value v = (case v of JArr vs \<Rightarrow> vs | _ \<Rightarrow> [v])"

text \<open>
  The list as the specification words it: context values, then the \<open>id\<close> of each schema
  entry unless \<open>credentialSchema\<close> is absent, then the type values.
\<close>

definition claimed_uris :: "json \<Rightarrow> json list" where
  "claimed_uris cred =
     flatten_value (js_prop cred ''@context'')
     @ (if js_prop cred ''credentialSchema'' = JUndef then []
        else map (\<lambda>e. js_prop e ''id'') (flatten_value (js_prop cred ''credentialSchema'')))
     @ flatten_value (js_prop cred ''type'')"

text \<open>
  The schema part with the empty list told apart: a non-empty list gives the \<open>id\<close> of
  each entry, any other truthy value (an empty list too) gives its own \<open>id\<close>, and a
  falsy value gives nothing. The type part: the elements of a list, a truthy single value,
  and nothing otherwise.
\<close>

definition schema_ids :: "json \<Rightarrow> json list" where
  "schema_ids cs =
     (case cs of
        JArr (e # es) \<Rightarrow> map (\<lambda>e. js_prop e ''id'') (e # es)
      | _ \<Rightarrow> if truthy cs then [js_prop cs ''id''] else [])"

definition type_values :: "json \<Rightarrow> json list" where
  "type_values ty = (case ty of JArr vs \<Rightarrow> vs | _ \<Rightarrow> if truthy ty then [ty] else [])"

text \<open>No entry of a schema list is \<open>null\<close> or \<open>undefined\<close>, so reading its \<open>id\<close> cannot throw.\<close>

definition schema_entries_ok :: "json \<Rightarrow> bool" where
  "schema_entries_ok cs = (case cs of JArr es \<Rightarrow> list_all not_nullish es | _ \<Rightarrow> True)"

subsection \<open>What the URI handler logs for one pair\<close>

text \<open>The results that \<open>handle\<close> appends for the descriptor at \<open>i\<close> and the credential at \<open>j\<close>.\<close>

definition pair_results ::
  "PresentationDefinition \<Rightarrow> InputDescriptor \<Rightarrow> WrappedVerifiableCredential \<Rightarrow> nat \<Rightarrow> nat \<Rightarrow>
   HandlerCheckResult list" where
  "pair_results d inDesc wvc i j =
     (case buildVcContextAndSchemaUris (credential wvc) of
        None \<Rightarrow> []
      | Some vcUris \<Rightarrow>
          (case evaluateUris wvc vcUris (descriptor_uris d inDesc) i j (getVersion d) [] of
             None \<Rightarrow> []
           | Some rs \<Rightarrow> rs))"

text \<open>
  The status of the match result as the specification words it: for version 1, INFO when
  a URI of the credential is string-equal to a declared URI and ERROR otherwise; for
  version 2, INFO.
\<close>

definition spec_match_status :: "PEVersion \<Rightarrow> string list \<Rightarrow> json list \<Rightarrow> Status" where
  "spec_match_status ver declared extracted =
     (case ver of
        v1 \<Rightarrow> if (\<exists>u \<in> set declared. JStr u \<in> set extracted) then INFO else ERROR
      | v2 \<Rightarrow> INFO)"

text \<open>The match result of a pair, written out.\<close>

definition match_result ::
  "WrappedVerifiableCredential \<Rightarrow> json list \<Rightarrow> string list \<Rightarrow> nat \<Rightarrow> nat \<Rightarrow> PEVersion \<Rightarrow>
   HandlerCheckResult" where
  "match_result wvc vcUris uris i j ver =
     (createResult i j)
       \<lparr> status := spec_match_status ver uris vcUris,
         message := Some (Pex (if spec_match_status ver uris vcUris = INFO
                               then URI_EVALUATION_PASSED else URI_EVALUATION_DIDNT_PASS)),
         payload := Some (UriPayload (js_prop (credential wvc) ''@context'')
                      (js_prop (credential wvc) ''credentialSchema'') uris) \<rparr>"

text \<open>The descriptor map of a run of \<open>handle\<close>, when it returns.\<close>

definition descriptor_map_of :: "EvaluationClient option \<Rightarrow> Descriptor list option" where
  "descriptor_map_of r =
     (case r of None \<Rightarrow> None | Some c \<Rightarrow> map_option descriptor_map (presentationSubmission c))"

subsection \<open>Example inputs\<close>

definition example_definition :: PresentationDefinition where
  "example_definition =
     \<lparr> id_pd = ''pd-1'', getVersion = v1,
       input_descriptors =
         [\<lparr> id_in = ''descriptor-A'',
             schema = [\<lparr> uri = ''https://example.org/schema#A'' \<rparr>],
             constraints = None \<rparr>,
          \<lparr> id_in = ''descriptor-H'',
             schema = [\<lparr> uri = ''hl:zQmAbc:zQmXyz'' \<rparr>],
             constraints = None \<rparr>] \<rparr>"

definition example_credentials :: "WrappedVerifiableCredential list" where
  "example_credentials =
     [\<lparr> credential = JObj [(''@context'', JStr ''https://www.w3.org/2018/credentials/v1''),
                           (''type'', JArr [JStr ''https://example.org/schema#A''])] \<rparr>,
      \<lparr> credential = JObj [(''@context'', JStr ''https://www.w3.org/2018/credentials/v1''),
                           (''type'', JArr [JStr ''https://example.org/schema#B''])] \<rparr>]"

definition example_client :: EvaluationClient where
  "example_client =
     \<lparr> results =
         [\<lparr> input_descriptor_path = ''$.input_descriptors[1]'',
             verifiable_credential_path = ''$[1]'',
             evaluator = ''Earlier'', status = INFO, message = None, payload = None \<rparr>],
       verifiableCredential = None,
       presentationSubmission = None \<rparr>"

section \<open>The limit disclosure handler\<close>

text \<open>
  \<open>base[seg] = v\<close>, as the updated \<open>base\<close>. A new property goes to the end of an object;
  writing past the end of an array leaves \<open>undefined\<close> slots in between. The handler
  writes through a cursor that is the output object or a container it has just created,
  and it enters an array only before an index: the last two equations are never reached.
\<close>

fun upd :: "(string \<times> json) list \<Rightarrow> string \<Rightarrow> json \<Rightarrow> (string \<times> json) list" where
  "upd [] k v = [(k, v)]"
| "upd ((k', v') # kvs) k v = (if k' = k then (k, v) # kvs else (k', v') # upd kvs k v)"

fun js_set :: "json \<Rightarrow> seg \<Rightarrow> json \<Rightarrow> json" where
  "js_set (JObj kvs) s v = JObj (upd kvs (seg_key s) v)"
| "js_set (JArr xs) (SIdx n) v =
     JArr (if n < length xs then xs[n := v] else xs @ replicate (n - length xs) JUndef @ [v])"
| "js_set (JArr xs) (SKey k) v = JArr xs"
| "js_set b s v = b"

text \<open>\<open>Object.keys\<close>; it throws on \<open>undefined\<close> and \<open>null\<close>.\<close>

fun object_keys :: "json \<Rightarrow> string list option" where
  "object_keys JUndef = None"
| "object_keys JNull = None"
| "object_keys (JObj kvs) = Some (map fst kvs)"
| "object_keys (JArr xs) = Some (map string_of_nat [0..<length xs])"
| "object_keys (JStr cs) = Some (map string_of_nat [0..<length cs])"
| "object_keys (JBool _) = Some []"
| "object_keys (JNum _) = Some []"

definition ld_getName :: string where
  "ld_getName = ''LimitDisclosureEvaluation''"

definition mandatoryFields :: "string list" where
  "mandatoryFields = [''@context'', ''id'', ''credentialSchema'', ''credentialSubject'', ''type'']"

definition createSuccessResult :: "nat \<Rightarrow> nat \<Rightarrow> seg list \<Rightarrow> HandlerCheckResult" where
  "createSuccessResult idIdx vcIdx pathDetails =
     \<lparr> input_descriptor_path = ''$.input_descriptors['' @ string_of_nat idIdx @ '']'',
       verifiable_credential_path = ''$.verifiableCredential['' @ string_of_nat vcIdx @ '']'',
       evaluator = ld_getName,
       status = INFO,
       message = Some (Literal ''added variable in the limit_disclosure to the verifiableCredential''),
       payload = Some (SegmentsPayload pathDetails) \<rparr>"

definition createMandatoryFieldNotFoundResult :: "nat \<Rightarrow> nat \<Rightarrow> string list \<Rightarrow> HandlerCheckResult" where
  "createMandatoryFieldNotFoundResult idIdx vcIdx requested =
     \<lparr> input_descriptor_path = ''$.input_descriptors['' @ string_of_nat idIdx @ '']'',
       verifiable_credential_path = ''$.verifiableCredential['' @ string_of_nat vcIdx @ '']'',
       evaluator = ld_getName,
       status = ERROR,
       message = Some (Literal ''mandatory field not present in the verifiableCredential''),
       payload = Some (PathPayload requested) \<rparr>"

text \<open>
  \<open>copyMandatoryFieldsAndDeletePredefinedKeys\<close>, as a loop over the mandatory fields that
  are still to be copied; it returns the output object and the remaining keys.
\<close>

fun copy_mandatory_loop ::
  "string list \<Rightarrow> json \<Rightarrow> json \<Rightarrow> string list \<Rightarrow> (json \<times> string list) option" where
  "copy_mandatory_loop [] vc verifiableCredentialToSend keys =
     Some (verifiableCredentialToSend, keys)"
| "copy_mandatory_loop (f # fs) vc verifiableCredentialToSend keys = do {
     v \<leftarrow> js_get vc (SKey f);
     copy_mandatory_loop fs vc
       (js_set verifiableCredentialToSend (SKey f) v) (remove1 f keys)
   }"

definition copyMandatoryFieldsAndDeletePredefinedKeys ::
  "json \<Rightarrow> json \<Rightarrow> string list \<Rightarrow> (json \<times> string list) option" where
  "copyMandatoryFieldsAndDeletePredefinedKeys vc verifiableCredentialToSend keys =
     copy_mandatory_loop mandatoryFields vc verifiableCredentialToSend keys"

text \<open>
  The loop of \<open>copyResultPathToDestinationCredential\<close> over the segments after the root
  marker. The container that the code assigns and then enters is new and referenced from
  nowhere else, so the writes below it are made on it before it is stored.
\<close>

fun copy_segments :: "seg list \<Rightarrow> json \<Rightarrow> json \<Rightarrow> json option" where
  "copy_segments [] objectCursor currentCursorInToSendObj = Some currentCursorInToSendObj"
| "copy_segments [s] objectCursor currentCursorInToSendObj = do {
     objectCursor' \<leftarrow> js_get objectCursor s;
     Some (js_set currentCursorInToSendObj s objectCursor')
   }"
| "copy_segments (s # s' # rest) objectCursor currentCursorInToSendObj = do {
     objectCursor' \<leftarrow> js_get objectCursor s;
     let container =
       (if is_string_seg s \<and> is_string_seg s' then JObj []
        else if is_string_seg s \<and> \<not> is_string_seg s' then JArr [JObj []]
        else JObj []);
     below \<leftarrow> copy_segments (s' # rest) objectCursor' container;
     Some (js_set currentCursorInToSendObj s below)
   }"

definition copyResultPathToDestinationCredential ::
  "seg list \<Rightarrow> json \<Rightarrow> json \<Rightarrow> nat \<Rightarrow> nat \<Rightarrow> HandlerCheckResult list \<Rightarrow>
   (HandlerCheckResult list \<times> json) option" where
  "copyResultPathToDestinationCredential pathDetails vc verifiableCredentialToSend
       idIdx vcIdx rs = do {
     out \<leftarrow> copy_segments (tl pathDetails) vc verifiableCredentialToSend;
     Some (rs @ [createSuccessResult idIdx vcIdx pathDetails], out)
   }"

text \<open>
  \<open>JsonPathUtils.extractInputField\<close> is a parameter: the matches, each a path and a value,
  of the first of the field's expressions that matches the credential.
\<close>

type_synonym extractor = "json \<Rightarrow> string list \<Rightarrow> (seg list \<times> json) list"

fun determineNecessaryPaths ::
  "extractor \<Rightarrow> json \<Rightarrow> json \<Rightarrow> Field list \<Rightarrow> nat \<Rightarrow> nat \<Rightarrow> HandlerCheckResult list \<Rightarrow>
   (HandlerCheckResult list \<times> json) option" where
  "determineNecessaryPaths extractInputField vc vcToSend [] idIdx vcIdx rs = Some (rs, vcToSend)"
| "determineNecessaryPaths extractInputField vc vcToSend (field # flds) idIdx vcIdx rs =
     (case extractInputField vc (path field) of
        [] \<Rightarrow>
          determineNecessaryPaths extractInputField vc vcToSend flds idIdx vcIdx
            (rs @ [createMandatoryFieldNotFoundResult idIdx vcIdx (path field)])
      | result0 # _ \<Rightarrow> do {
          (rs', vcToSend') \<leftarrow>
            copyResultPathToDestinationCredential (fst result0) vc vcToSend idIdx vcIdx rs;
          determineNecessaryPaths extractInputField vc vcToSend' flds idIdx vcIdx rs'
        })"

text \<open>The loop of \<open>copyModifiedVerifiableCredentialToExisting\<close> over the descriptor map.\<close>

fun push_loop :: "Descriptor list \<Rightarrow> string \<Rightarrow> json \<Rightarrow> json list \<Rightarrow> json list" where
  "push_loop [] inputDescriptorId verifiableCredentialToSend vcs = vcs"
| "push_loop (currentDescriptor # ds) inputDescriptorId verifiableCredentialToSend vcs =
     push_loop ds inputDescriptorId verifiableCredentialToSend
       (if id_d currentDescriptor = inputDescriptorId
        then vcs @ [verifiableCredentialToSend] else vcs)"

definition copyModifiedVerifiableCredentialToExisting ::
  "json \<Rightarrow> string \<Rightarrow> EvaluationClient \<Rightarrow> EvaluationClient option" where
  "copyModifiedVerifiableCredentialToExisting verifiableCredentialToSend inputDescriptorId client =
     (let vcs = (case verifiableCredential client of None \<Rightarrow> [] | Some vcs \<Rightarrow> vcs)
      in case presentationSubmission client of
           None \<Rightarrow> None
         | Some ps \<Rightarrow>
             Some (client \<lparr> verifiableCredential :=
                     Some (push_loop (descriptor_map ps) inputDescriptorId
                             verifiableCredentialToSend vcs) \<rparr>))"

text \<open>
  The first two statements of the loop body of \<open>limitDisclosureShouldBeEnforced\<close>: they
  build the object to send for one credential.
\<close>

definition build_vcToSend ::
  "extractor \<Rightarrow> json \<Rightarrow> Field list \<Rightarrow> nat \<Rightarrow> nat \<Rightarrow> HandlerCheckResult list \<Rightarrow>
   (HandlerCheckResult list \<times> json) option" where
  "build_vcToSend extractInputField vc flds idIdx i rs = do {
     keys \<leftarrow> object_keys vc;
     (verifiableCredentialToSend, keys') \<leftarrow>
       copyMandatoryFieldsAndDeletePredefinedKeys vc (JObj []) keys;
     determineNecessaryPaths extractInputField vc verifiableCredentialToSend flds idIdx i rs
   }"

text \<open>
  The loop body. A descriptor map is an array and so truthy, also when it is empty: the
  guard holds as soon as the presentation of the context has a submission.
\<close>

definition enforce_on_credential ::
  "extractor \<Rightarrow> json \<Rightarrow> Field list \<Rightarrow> nat \<Rightarrow> nat \<Rightarrow> string \<Rightarrow> EvaluationClient \<Rightarrow>
   EvaluationClient option" where
  "enforce_on_credential extractInputField vc flds idIdx i inputDescriptorId client = do {
     (rs, verifiableCredentialToSend) \<leftarrow> build_vcToSend extractInputField vc flds idIdx i (results client);
     let client' = client \<lparr> results := rs \<rparr>;
     if presentationSubmission client' \<noteq> None
     then copyModifiedVerifiableCredentialToExisting verifiableCredentialToSend inputDescriptorId client'
     else Some client'
   }"

fun credentials_loop ::
  "extractor \<Rightarrow> json list \<Rightarrow> Field list \<Rightarrow> nat \<Rightarrow> nat \<Rightarrow> string \<Rightarrow> EvaluationClient \<Rightarrow>
   EvaluationClient option" where
  "credentials_loop extractInputField [] flds idIdx i inputDescriptorId client = Some client"
| "credentials_loop extractInputField (vc # vcs) flds idIdx i inputDescriptorId client = do {
     client' \<leftarrow> enforce_on_credential extractInputField vc flds idIdx i inputDescriptorId client;
     credentials_loop extractInputField vcs flds idIdx (Suc i) inputDescriptorId client'
   }"

text \<open>
  \<open>limitDisclosureShouldBeEnforced\<close>. Its argument is the credential list of the
  presentation that was passed to \<open>handle\<close>, \<open>None\<close> when that presentation has none; the
  presentation of the context, to which the loop appends, is another object.
\<close>

definition limitDisclosureShouldBeEnforced ::
  "extractor \<Rightarrow> json list option \<Rightarrow> Field list \<Rightarrow> nat \<Rightarrow> string \<Rightarrow> EvaluationClient \<Rightarrow>
   EvaluationClient option" where
  "limitDisclosureShouldBeEnforced extractInputField verifiablePresentation flds idIdx inputDescriptorId client =
     (case verifiablePresentation of
        None \<Rightarrow> None
      | Some vcs \<Rightarrow> credentials_loop extractInputField vcs flds idIdx 0 inputDescriptorId client)"

fun ld_descriptors_loop ::
  "extractor \<Rightarrow> json list option \<Rightarrow> InputDescriptor list \<Rightarrow> nat \<Rightarrow> EvaluationClient \<Rightarrow>
   EvaluationClient option" where
  "ld_descriptors_loop extractInputField p [] i client = Some client"
| "ld_descriptors_loop extractInputField p (inDesc # ds) i client =
     (case constraints inDesc of
        Some cons \<Rightarrow>
          if limit_disclosure cons = Some Required
          then do {
            client' \<leftarrow> limitDisclosureShouldBeEnforced extractInputField p (fields_c cons) i (id_in inDesc) client;
            ld_descriptors_loop extractInputField p ds (Suc i) client'
          }
          else ld_descriptors_loop extractInputField p ds (Suc i) client
      | None \<Rightarrow> ld_descriptors_loop extractInputField p ds (Suc i) client)"

definition ld_handle ::
  "extractor \<Rightarrow> PresentationDefinition \<Rightarrow> json list option \<Rightarrow> EvaluationClient \<Rightarrow>
   EvaluationClient option" where
  "ld_handle extractInputField pd p client = ld_descriptors_loop extractInputField p (input_descriptors pd) 0 client"

text \<open>Walking a document along segments without reading a property of \<open>undefined\<close> or \<open>null\<close>.\<close>

fun walk :: "json \<Rightarrow> seg list \<Rightarrow> json option" where
  "walk v [] = Some v"
| "walk v (s # ss) = do { v' \<leftarrow> js_get v s; walk v' ss }"

text \<open>
  Modelled from the spec: \<open>JsonPathUtils.extractInputField\<close> for expressions that are a
  root marker followed by property names, \<open>$.a.b.c\<close>. The expressions are tried in order;
  the first one whose value is there gives the only match.
\<close>

fun split_dots :: "string \<Rightarrow> string \<Rightarrow> string list" where
  "split_dots acc [] = [rev acc]"
| "split_dots acc (c # cs) = (if c = CHR ''.'' then rev acc # split_dots [] cs else split_dots (c # acc) cs)"

definition segments_of :: "string \<Rightarrow> seg list" where
  "segments_of e = map SKey (split_dots [] e)"

fun property_path_extractor :: extractor where
  "property_path_extractor vc [] = []"
| "property_path_extractor vc (e # es) =
     (case walk vc (tl (segments_of e)) of
        Some v \<Rightarrow> if v \<noteq> JUndef then [(segments_of e, v)] else property_path_extractor vc es
      | None \<Rightarrow> property_path_extractor vc es)"


subsection \<open>Containers, in words\<close>

text \<open>
  The container for a segment that is not the last one, as the specification words it: an
  object when the next segment is a property name, a list of one element otherwise; and
  the copy of a path with that container.
\<close>

definition spec_container :: "seg \<Rightarrow> json" where
  "spec_container next_seg = (if is_string_seg next_seg then JObj [] else JArr [JObj []])"

fun spec_copy_segments :: "seg list \<Rightarrow> json \<Rightarrow> json \<Rightarrow> json option" where
  "spec_copy_segments [] source cur = Some cur"
| "spec_copy_segments [s] source cur = do {
     leaf \<leftarrow> js_get source s;
     Some (js_set cur s leaf)
   }"
| "spec_copy_segments (s # s' # rest) source cur = do {
     source' \<leftarrow> js_get source s;
     below \<leftarrow> spec_copy_segments (s' # rest) source' (spec_container s');
     Some (js_set cur s below)
   }"

text \<open>A path in which an index is followed by another index.\<close>

fun index_then_index :: "seg list \<Rightarrow> bool" where
  "index_then_index (SIdx _ # SIdx n # rest) = True"
| "index_then_index (s # rest) = index_then_index rest"
| "index_then_index [] = False"

text \<open>Every path that the resolver reports for a credential leads through that credential.\<close>

definition paths_exist :: "extractor \<Rightarrow> json \<Rightarrow> bool" where
  "paths_exist extractInputField vc =
     (\<forall>es pth v others. extractInputField vc es = (pth, v) # others \<longrightarrow> walk vc (tl pth) \<noteq> None)"

subsection \<open>Example inputs for the limit disclosure handler\<close>

definition example_vc :: json where
  "example_vc =
     JObj [(''@context'', JStr ''https://www.w3.org/2018/credentials/v1''),
           (''id'', JStr ''urn:credential:1''),
           (''credentialSubject'',
              JObj [(''degree'', JObj [(''type'', JStr ''BachelorDegree''), (''name'', JStr ''BSc'')]),
                    (''age'', JNum 30)]),
           (''type'', JArr [JStr ''VerifiableCredential'']),
           (''issuer'', JStr ''did:example:issuer'')]"

definition example_fields :: "Field list" where
  "example_fields =
     [\<lparr> path = [''$.credentialSubject.degree.type''] \<rparr>,
      \<lparr> path = [''$.credentialSubject.salary''] \<rparr>]"

definition example_ld_definition :: PresentationDefinition where
  "example_ld_definition =
     \<lparr> id_pd = ''pd-2'', getVersion = v1,
       input_descriptors =
         [\<lparr> id_in = ''degree'', schema = [],
             constraints = Some \<lparr> limit_disclosure = Some Required, fields_c = example_fields \<rparr> \<rparr>] \<rparr>"

definition example_ld_client :: EvaluationClient where
  "example_ld_client =
     \<lparr> results = [],
       verifiableCredential = Some [JStr ''already there''],
       presentationSubmission =
         Some \<lparr> id_ps = ''s-1'', definition_id = ''pd-2'',
                descriptor_map =
                  [\<lparr> id_d = ''degree'', format = ''ldp_vc'', path_d = ''$[0]'' \<rparr>,
                   \<lparr> id_d = ''other'', format = ''ldp_vc'', path_d = ''$[1]'' \<rparr>,
                   \<lparr> id_d = ''degree'', format = ''ldp_vc'', path_d = ''$[2]'' \<rparr>] \<rparr> \<rparr>"

definition example_vcToSend :: json where
  "example_vcToSend =
     JObj [(''@context'', JStr ''https://www.w3.org/2018/credentials/v1''),
           (''id'', JStr ''urn:credential:1''),
           (''credentialSchema'', JUndef),
           (''credentialSubject'', JObj [(''degree'', JObj [(''type'', JStr ''BachelorDegree'')])]),
           (''type'', JArr [JStr ''VerifiableCredential''])]"

subsection \<open>Reading a decimal rendering back\<close>

definition digit_val :: "char \<Rightarrow> nat" where
  "digit_val c = of_char c - 48"

definition nat_of_string :: "string \<Rightarrow> nat" where
  "nat_of_string cs = foldl (\<lambda>a c. 10 * a + digit_val c) 0 cs"

section \<open>Properties\<close>

subsection \<open>URI extraction\<close>

lemma js_get_not_nullish: "not_nullish v \<Longrightarrow> js_get v s = Some (case js_get v s of Some x \<Rightarrow> x | None \<Rightarrow> JUndef)"
  by (cases "(v, s)" rule: js_get.cases) (simp_all add: not_nullish_def)

lemma js_get_prop: "not_nullish v \<Longrightarrow> js_get v (SKey k) = Some (js_prop v k)"
  unfolding js_prop_def by (rule js_get_not_nullish)

lemma those_map_Some: "those (map (\<lambda>x. Some (f x)) xs) = Some (map f xs)"
  by (induction xs) simp_all

lemma those_ids:
  "list_all not_nullish es \<Longrightarrow>
   those (map (\<lambda>element. js_get element (SKey ''id'')) es) = Some (map (\<lambda>e. js_prop e ''id'') es)"
  by (induction es) (simp_all add: js_get_prop)

lemma schema_part:
  assumes ok: "schema_entries_ok cs"
  shows "(case cs of
      JArr (e # es) \<Rightarrow> those (map (\<lambda>element. js_get element (SKey ''id'')) (e # es))
    | _ \<Rightarrow> if truthy cs then do { i \<leftarrow> js_get cs (SKey ''id''); Some [i] } else Some [])
   = Some (schema_ids cs)"
proof (cases cs)
  case (JArr es)
  show ?thesis
  proof (cases es)
    case Nil
    with JArr show ?thesis by (simp add: schema_ids_def js_prop_def index_of_key_def)
  next
    case (Cons e es')
    with JArr ok have "list_all not_nullish (e # es')" by (simp add: schema_entries_ok_def)
    from those_ids[OF this] JArr Cons show ?thesis by (simp add: schema_ids_def)
  qed
qed (simp_all add: schema_ids_def js_prop_def)

lemma buildVcContextAndSchemaUris_eq:
  assumes "schema_entries_ok (lookup kvs ''credentialSchema'')"
  shows "buildVcContextAndSchemaUris (JObj kvs) =
           Some (flatten_value (lookup kvs ''@context'')
                 @ schema_ids (lookup kvs ''credentialSchema'')
                 @ type_values (lookup kvs ''type''))"
proof -
  have ctx: "(case lookup kvs ''@context'' of JArr vs \<Rightarrow> vs | _ \<Rightarrow> [lookup kvs ''@context''])
               = flatten_value (lookup kvs ''@context'')"
    by (simp add: flatten_value_def split: json.splits)
  show ?thesis
    unfolding buildVcContextAndSchemaUris_def
    by (simp add: schema_part[OF assms] ctx type_values_def Let_def)
qed

text \<open>
  Where \<open>credentialSchema\<close> is absent, an object, or a non-empty list whose entries are
  neither \<open>null\<close> nor \<open>undefined\<close>, and \<open>type\<close> is a list or a truthy value, the code
  extracts the list as the specification words it.
\<close>

lemma extraction_agrees_with_claimed_list:
  assumes cs: "lookup kvs ''credentialSchema'' = JUndef
               \<or> (\<exists>ob. lookup kvs ''credentialSchema'' = JObj ob)
               \<or> (\<exists>e es. lookup kvs ''credentialSchema'' = JArr (e # es) \<and> list_all not_nullish (e # es))"
    and ty: "(\<exists>vs. lookup kvs ''type'' = JArr vs) \<or> truthy (lookup kvs ''type'')"
  shows "buildVcContextAndSchemaUris (JObj kvs) = Some (claimed_uris (JObj kvs))"
proof -
  from cs have ok: "schema_entries_ok (lookup kvs ''credentialSchema'')"
    by (auto simp: schema_entries_ok_def)
  from cs have s: "schema_ids (lookup kvs ''credentialSchema'') =
      (if lookup kvs ''credentialSchema'' = JUndef then []
       else map (\<lambda>e. js_prop e ''id'') (flatten_value (lookup kvs ''credentialSchema'')))"
    by (auto simp: schema_ids_def flatten_value_def)
  from ty have t: "type_values (lookup kvs ''type'') = flatten_value (lookup kvs ''type'')"
    by (auto simp: type_values_def flatten_value_def split: json.splits)
  show ?thesis
    unfolding buildVcContextAndSchemaUris_eq[OF ok] s t
    by (simp add: claimed_uris_def js_prop_def)
qed

text \<open>
  Claim C8. The extracted list is the \<open>@context\<close> values, then the \<open>id\<close> of each
  \<open>credentialSchema\<close> entry, then the \<open>type\<close> values. On a credential whose
  \<open>credentialSchema\<close> is an empty list there is no entry and the list of the claim has
  the context and type values only; the code, whose list branch asks for a non-empty list,
  falls into the single-object branch and adds an \<open>undefined\<close> entry between them.
\<close>

theorem empty_schema_list_adds_undefined_entry:
  "buildVcContextAndSchemaUris
     (JObj [(''@context'', JStr ''https://www.w3.org/2018/credentials/v1''),
            (''credentialSchema'', JArr []),
            (''type'', JArr [JStr ''VerifiableCredential''])])
     = Some [JStr ''https://www.w3.org/2018/credentials/v1'', JUndef, JStr ''VerifiableCredential'']
   \<and> claimed_uris
     (JObj [(''@context'', JStr ''https://www.w3.org/2018/credentials/v1''),
            (''credentialSchema'', JArr []),
            (''type'', JArr [JStr ''VerifiableCredential''])])
     = [JStr ''https://www.w3.org/2018/credentials/v1'', JStr ''VerifiableCredential'']"
  by (simp add: buildVcContextAndSchemaUris_def claimed_uris_def js_prop_def flatten_value_def lookup_def index_of_key_def)

text \<open>
  Claim C10. A credential whose \<open>credentialSchema\<close> is an empty list is not skipped: the
  single-object branch appends the list's absent \<open>id\<close> as one \<open>undefined\<close> entry,
  between the context and the type values. An absent \<open>@context\<close> contributes one
  \<open>undefined\<close> entry at the front. In both cases the extracted list is not empty.
\<close>

theorem empty_schema_list_not_skipped:
  "(lookup kvs ''credentialSchema'' = JArr [] \<longrightarrow>
      buildVcContextAndSchemaUris (JObj kvs) =
        Some (flatten_value (lookup kvs ''@context'') @ [JUndef] @ type_values (lookup kvs ''type'')))
   \<and> (map_of kvs ''@context'' = None \<longrightarrow> schema_entries_ok (lookup kvs ''credentialSchema'') \<longrightarrow>
      buildVcContextAndSchemaUris (JObj kvs) =
        Some ([JUndef] @ schema_ids (lookup kvs ''credentialSchema'') @ type_values (lookup kvs ''type'')))
   \<and> (lookup kvs ''credentialSchema'' = JArr [] \<or> map_of kvs ''@context'' = None \<longrightarrow>
      buildVcContextAndSchemaUris (JObj kvs) \<noteq> Some [])"
proof (intro conjI impI)
  assume e: "lookup kvs ''credentialSchema'' = JArr []"
  then have ok: "schema_entries_ok (lookup kvs ''credentialSchema'')"
    by (simp add: schema_entries_ok_def)
  have "schema_ids (JArr []) = [JUndef]"
    by (simp add: schema_ids_def js_prop_def index_of_key_def)
  with buildVcContextAndSchemaUris_eq[OF ok] e
  show "buildVcContextAndSchemaUris (JObj kvs) =
        Some (flatten_value (lookup kvs ''@context'') @ [JUndef] @ type_values (lookup kvs ''type''))"
    by simp
next
  assume a: "map_of kvs ''@context'' = None" and ok: "schema_entries_ok (lookup kvs ''credentialSchema'')"
  from a have "flatten_value (lookup kvs ''@context'') = [JUndef]"
    by (simp add: lookup_def flatten_value_def)
  with buildVcContextAndSchemaUris_eq[OF ok]
  show "buildVcContextAndSchemaUris (JObj kvs) =
        Some ([JUndef] @ schema_ids (lookup kvs ''credentialSchema'') @ type_values (lookup kvs ''type''))"
    by simp
next
  assume "lookup kvs ''credentialSchema'' = JArr [] \<or> map_of kvs ''@context'' = None"
  then show "buildVcContextAndSchemaUris (JObj kvs) \<noteq> Some []"
  proof
    assume e: "lookup kvs ''credentialSchema'' = JArr []"
    show ?thesis
      unfolding buildVcContextAndSchemaUris_def by (simp add: e Let_def)
  next
    assume a: "map_of kvs ''@context'' = None"
    show ?thesis
      unfolding buildVcContextAndSchemaUris_def by (simp add: a lookup_def Let_def split: Option.bind_splits)
  qed
qed


theorem empty_schema_list_not_skipped_witness:
  "lookup [(''credentialSchema'', JArr []), (''type'', JStr ''T'')] ''credentialSchema'' = JArr []
   \<and> map_of [(''credentialSchema'', JArr []), (''type'', JStr ''T'')] ''@context'' = None
   \<and> schema_entries_ok (lookup [(''credentialSchema'', JArr []), (''type'', JStr ''T'')] ''credentialSchema'')
   \<and> buildVcContextAndSchemaUris (JObj [(''credentialSchema'', JArr []), (''type'', JStr ''T'')])
       = Some [JUndef, JUndef, JStr ''T'']
   \<and> buildVcContextAndSchemaUris (JObj [(''credentialSchema'', JArr []), (''type'', JStr ''T'')])
       \<noteq> Some []"
  using empty_schema_list_not_skipped
          [of "[(''credentialSchema'', JArr []), (''type'', JStr ''T'')]"]
  by (simp add: lookup_def schema_entries_ok_def flatten_value_def type_values_def)

subsection \<open>The URI evaluation handler\<close>

lemma hashlink_loop_eq:
  "hashlink_loop us i j rs =
     rs @ map (\<lambda>_. createWarnResultObject i j) (filter containsHashlink us)"
  by (induction us arbitrary: rs) simp_all

lemma match_loop_eq:
  "match_loop vs uris h = (h \<or> (\<exists>u \<in> set uris. JStr u \<in> set vs))"
  by (induction vs arbitrary: h) (auto simp: find_None_iff)

lemma build_Some_not_nullish:
  "buildVcContextAndSchemaUris c = Some us \<Longrightarrow> not_nullish c"
  by (cases c) (simp_all add: buildVcContextAndSchemaUris_def not_nullish_def)

lemma uri_payload_eq:
  "not_nullish (credential wvc) \<Longrightarrow>
   uri_payload wvc uris =
     Some (UriPayload (js_prop (credential wvc) ''@context'')
                      (js_prop (credential wvc) ''credentialSchema'') uris)"
  by (simp add: uri_payload_def js_get_prop)

lemma evaluateUris_eq:
  assumes "not_nullish (credential wvc)"
  shows "evaluateUris wvc vcUris uris i j ver rs =
     Some (rs @ (if ver = v1 then map (\<lambda>_. createWarnResultObject i j) (filter containsHashlink uris) else [])
              @ [match_result wvc vcUris uris i j ver])"
  using assms
  by (cases ver)
     (simp_all add: evaluateUris_def hashlink_loop_eq match_loop_eq createSuccessResultObject_def
        createErrorResultObject_def uri_payload_eq match_result_def spec_match_status_def)


lemma pair_results_eq:
  assumes "buildVcContextAndSchemaUris (credential wvc) = Some vcUris"
  shows "pair_results d inDesc wvc i j =
     (if getVersion d = v1
      then map (\<lambda>_. createWarnResultObject i j) (filter containsHashlink (descriptor_uris d inDesc))
      else [])
     @ [match_result wvc vcUris (descriptor_uris d inDesc) i j (getVersion d)]"
  using assms evaluateUris_eq[OF build_Some_not_nullish[OF assms], of vcUris _ i j _ "[]"]
  by (simp add: pair_results_def)

lemma evaluateUris_pair_results:
  assumes "buildVcContextAndSchemaUris (credential wvc) = Some vcUris"
  shows "evaluateUris wvc vcUris (descriptor_uris d inDesc) i j (getVersion d) rs =
           Some (rs @ pair_results d inDesc wvc i j)"
  using evaluateUris_eq[OF build_Some_not_nullish[OF assms]] pair_results_eq[OF assms]
  by simp

lemma wvcs_forEach_eq:
  assumes "\<forall>w \<in> set ws. buildVcContextAndSchemaUris (credential w) \<noteq> None"
  shows "wvcs_forEach (getVersion d) (descriptor_uris d inDesc) i j ws rs =
           Some (rs @ concat (map (\<lambda>(j, wvc). pair_results d inDesc wvc i j) (enumerate j ws)))"
  using assms
proof (induction ws arbitrary: j rs)
  case Nil
  show ?case by simp
next
  case (Cons w ws)
  from Cons.prems obtain vcUris where b: "buildVcContextAndSchemaUris (credential w) = Some vcUris"
    by auto
  from Cons.prems have rest: "\<forall>w \<in> set ws. buildVcContextAndSchemaUris (credential w) \<noteq> None"
    by simp
  show ?case
    by (simp add: b evaluateUris_pair_results[OF b] Cons.IH[OF rest])
qed

lemma input_descriptors_forEach_eq:
  assumes "\<forall>w \<in> set wvcs. buildVcContextAndSchemaUris (credential w) \<noteq> None"
  shows "input_descriptors_forEach d wvcs i ds rs =
           Some (rs @ concat (map (\<lambda>(i, inDesc).
                   concat (map (\<lambda>(j, wvc). pair_results d inDesc wvc i j) (enumerate 0 wvcs)))
                 (enumerate i ds)))"
proof (induction ds arbitrary: i rs)
  case Nil
  show ?case by simp
next
  case (Cons inDesc ds)
  show ?case
    by (simp add: wvcs_forEach_eq[OF assms] Cons.IH)
qed

lemma handle_pairs_eq:
  assumes "\<forall>w \<in> set wvcs. buildVcContextAndSchemaUris (credential w) \<noteq> None"
  shows "handle_pairs d wvcs rs =
           Some (rs @ concat (map (\<lambda>(i, inDesc).
                   concat (map (\<lambda>(j, wvc). pair_results d inDesc wvc i j) (enumerate 0 wvcs)))
                 (enumerate 0 (input_descriptors d))))"
  unfolding handle_pairs_def by (rule input_descriptors_forEach_eq[OF assms])

lemma status_createWarn [simp]: "status (createWarnResultObject i j) = WARN"
  by (simp add: createWarnResultObject_def)

lemma status_match_result [simp]:
  "status (match_result wvc vcUris uris i j ver) = spec_match_status ver uris vcUris"
  by (simp add: match_result_def)

lemma spec_match_status_not_WARN [simp]: "spec_match_status ver uris vcUris \<noteq> WARN"
  by (simp add: spec_match_status_def split: PEVersion.splits)

lemma spec_match_status_descriptor_uris:
  "spec_match_status (getVersion d) (descriptor_uris d inDesc) vcUris =
   spec_match_status (getVersion d) (map uri (schema inDesc)) vcUris"
  by (cases "getVersion d") (simp_all add: descriptor_uris_def spec_match_status_def)

text \<open>
  Claim C1. When the URI list of every credential can be extracted, the first statement of
  \<open>handle\<close> returns, and it appends to the log, for each descriptor \<open>i\<close> and each
  credential \<open>j\<close> in order, the results of that pair. The results of a pair are warnings
  followed by exactly one match result, which carries the paths of \<open>i\<close> and \<open>j\<close>. For
  version 1 its status is INFO exactly when a URI extracted from the credential is
  string-equal to a URI of the descriptor's schema list, and ERROR otherwise; for version 2
  it is INFO whatever the URIs are.
\<close>

theorem uri_one_match_result_per_pair:
  assumes "\<forall>w \<in> set wvcs. buildVcContextAndSchemaUris (credential w) \<noteq> None"
  shows "handle_pairs d wvcs rs =
           Some (rs @ concat (map (\<lambda>(i, inDesc).
                   concat (map (\<lambda>(j, wvc). pair_results d inDesc wvc i j) (enumerate 0 wvcs)))
                 (enumerate 0 (input_descriptors d))))
       \<and> (\<forall>c c'. handle jp nanoid d wvcs c = Some c' \<longrightarrow>
             handle_pairs d wvcs (results c) = Some (results c'))
       \<and> (\<forall>inDesc wvc i j vcUris.
             buildVcContextAndSchemaUris (credential wvc) = Some vcUris \<longrightarrow>
             (\<exists>warns m.
                pair_results d inDesc wvc i j = warns @ [m]
                \<and> (\<forall>w \<in> set warns. status w = WARN)
                \<and> input_descriptor_path m = ''$.input_descriptors['' @ string_of_nat i @ '']''
                \<and> verifiable_credential_path m = ''$['' @ string_of_nat j @ '']''
                \<and> status m = spec_match_status (getVersion d) (map uri (schema inDesc)) vcUris))"
proof (intro conjI allI impI)
  show "handle_pairs d wvcs rs =
           Some (rs @ concat (map (\<lambda>(i, inDesc).
                   concat (map (\<lambda>(j, wvc). pair_results d inDesc wvc i j) (enumerate 0 wvcs)))
                 (enumerate 0 (input_descriptors d))))"
    by (rule handle_pairs_eq[OF assms])
next
  fix c c'
  assume "handle jp nanoid d wvcs c = Some c'"
  then show "handle_pairs d wvcs (results c) = Some (results c')"
    by (auto simp: handle_def split: Option.bind_splits)
next
  fix inDesc and wvc :: WrappedVerifiableCredential and i j vcUris
  assume b: "buildVcContextAndSchemaUris (credential wvc) = Some vcUris"
  let ?warns = "if getVersion d = v1
      then map (\<lambda>_. createWarnResultObject i j) (filter containsHashlink (descriptor_uris d inDesc))
      else []"
  let ?m = "match_result wvc vcUris (descriptor_uris d inDesc) i j (getVersion d)"
  have 1: "pair_results d inDesc wvc i j = ?warns @ [?m]"
    by (rule pair_results_eq[OF b])
  have 2: "\<forall>w \<in> set ?warns. status w = WARN" by auto
  have 3: "input_descriptor_path ?m = ''$.input_descriptors['' @ string_of_nat i @ '']''"
    by (simp add: match_result_def createResult_def)
  have 4: "verifiable_credential_path ?m = ''$['' @ string_of_nat j @ '']''"
    by (simp add: match_result_def createResult_def)
  have 5: "status ?m = spec_match_status (getVersion d) (map uri (schema inDesc)) vcUris"
    by (simp add: spec_match_status_descriptor_uris)
  from 1 2 3 4 5
  show "\<exists>warns m.
                pair_results d inDesc wvc i j = warns @ [m]
                \<and> (\<forall>w \<in> set warns. status w = WARN)
                \<and> input_descriptor_path m = ''$.input_descriptors['' @ string_of_nat i @ '']''
                \<and> verifiable_credential_path m = ''$['' @ string_of_nat j @ '']''
                \<and> status m = spec_match_status (getVersion d) (map uri (schema inDesc)) vcUris"
    by blast
qed

theorem uri_one_match_result_per_pair_witness:
  "handle_pairs example_definition example_credentials [] =
       Some (concat (map (\<lambda>(i, inDesc).
               concat (map (\<lambda>(j, wvc). pair_results example_definition inDesc wvc i j)
                 (enumerate 0 example_credentials)))
             (enumerate 0 (input_descriptors example_definition))))
   \<and> map status (the (handle_pairs example_definition example_credentials []))
       = [INFO, ERROR, WARN, ERROR, WARN, ERROR]"
proof -
  have h: "\<forall>w \<in> set example_credentials. buildVcContextAndSchemaUris (credential w) \<noteq> None"
    by code_simp
  have e: "map status (the (handle_pairs example_definition example_credentials []))
       = [INFO, ERROR, WARN, ERROR, WARN, ERROR]"
    by code_simp
  from uri_one_match_result_per_pair[OF h, of example_definition "[]", THEN conjunct1]
  have t: "handle_pairs example_definition example_credentials [] =
       Some (concat (map (\<lambda>(i, inDesc).
               concat (map (\<lambda>(j, wvc). pair_results example_definition inDesc wvc i j)
                 (enumerate 0 example_credentials)))
             (enumerate 0 (input_descriptors example_definition))))"
    by simp
  show ?thesis by (intro conjI) (rule t e)+
qed

lemma filter_WARN_pair_results:
  assumes b: "buildVcContextAndSchemaUris (credential wvc) = Some vcUris"
  shows "filter (\<lambda>r. status r = WARN) (pair_results d inDesc wvc i j) =
     (if getVersion d = v1
      then map (\<lambda>_. createWarnResultObject i j) (filter containsHashlink (descriptor_uris d inDesc))
      else [])"
  by (simp add: pair_results_eq[OF b] filter_map comp_def)

text \<open>
  Claim C7, amended. For a version 1 pair, each declared URI that matches one of the two
  hashlink patterns adds exactly one WARN result, before the match result of the pair and
  without preventing it. The \<open>payload\<close> of the warning says that hashlink verification is
  not supported; its \<open>message\<close> is the member \<open>URI_EVALUATION_DIDNT_PASS\<close>. The declared
  URI \<open>hl:zQmAbc:zQmXyz\<close> matches and so always adds such a warning.
\<close>

theorem hashlink_warning_per_declared_uri:
  assumes v: "getVersion d = v1"
    and b: "buildVcContextAndSchemaUris (credential wvc) = Some vcUris"
  shows "pair_results d inDesc wvc i j =
           map (\<lambda>_. createWarnResultObject i j) (filter containsHashlink (map uri (schema inDesc)))
           @ [match_result wvc vcUris (map uri (schema inDesc)) i j v1]
       \<and> status (createWarnResultObject i j) = WARN
       \<and> payload (createWarnResultObject i j) =
           Some (MessagePayload INPUT_DESCRIPTOR_CONTEXT_CONTAINS_HASHLINK_VERIFICATION_NOT_SUPPORTED)
       \<and> message (createWarnResultObject i j) = Some (Pex URI_EVALUATION_DIDNT_PASS)
       \<and> status (match_result wvc vcUris (map uri (schema inDesc)) i j v1) \<noteq> WARN
       \<and> length (filter (\<lambda>r. status r = WARN) (pair_results d inDesc wvc i j)) =
           length (filter containsHashlink (map uri (schema inDesc)))
       \<and> containsHashlink ''hl:zQmAbc:zQmXyz''
       \<and> (''hl:zQmAbc:zQmXyz'' \<in> set (map uri (schema inDesc)) \<longrightarrow>
             createWarnResultObject i j \<in> set (pair_results d inDesc wvc i j))"
proof -
  have u: "descriptor_uris d inDesc = map uri (schema inDesc)"
    using v by (simp add: descriptor_uris_def)
  have 1: "pair_results d inDesc wvc i j =
           map (\<lambda>_. createWarnResultObject i j) (filter containsHashlink (map uri (schema inDesc)))
           @ [match_result wvc vcUris (map uri (schema inDesc)) i j v1]"
    using pair_results_eq[OF b, of d inDesc i j] v u by simp
  have 2: "payload (createWarnResultObject i j) =
           Some (MessagePayload INPUT_DESCRIPTOR_CONTEXT_CONTAINS_HASHLINK_VERIFICATION_NOT_SUPPORTED)"
    by (simp add: createWarnResultObject_def)
  have 3: "message (createWarnResultObject i j) = Some (Pex URI_EVALUATION_DIDNT_PASS)"
    by (simp add: createWarnResultObject_def)
  have 4: "length (filter (\<lambda>r. status r = WARN) (pair_results d inDesc wvc i j)) =
           length (filter containsHashlink (map uri (schema inDesc)))"
    using filter_WARN_pair_results[OF b, of d inDesc i j] v u by simp
  have 5: "containsHashlink ''hl:zQmAbc:zQmXyz''"
    by code_simp
  have 6: "createWarnResultObject i j \<in> set (pair_results d inDesc wvc i j)"
    if "''hl:zQmAbc:zQmXyz'' \<in> set (map uri (schema inDesc))"
  proof -
    from that 5 have "filter containsHashlink (map uri (schema inDesc)) \<noteq> []"
      by (auto simp: filter_empty_conv)
    then show ?thesis unfolding 1 by (cases "filter containsHashlink (map uri (schema inDesc))") auto
  qed
  from 1 2 3 4 5 6 show ?thesis by simp
qed

theorem hashlink_warning_per_declared_uri_witness:
  "getVersion example_definition = v1
   \<and> buildVcContextAndSchemaUris (credential (example_credentials ! 0))
       = Some [JStr ''https://www.w3.org/2018/credentials/v1'', JStr ''https://example.org/schema#A'']
   \<and> pair_results example_definition (input_descriptors example_definition ! 1)
         (example_credentials ! 0) 1 0
       = map (\<lambda>_. createWarnResultObject 1 0)
           (filter containsHashlink (map uri (schema (input_descriptors example_definition ! 1))))
         @ [match_result (example_credentials ! 0)
              [JStr ''https://www.w3.org/2018/credentials/v1'', JStr ''https://example.org/schema#A'']
              (map uri (schema (input_descriptors example_definition ! 1))) 1 0 v1]
   \<and> map status (pair_results example_definition (input_descriptors example_definition ! 1)
                    (example_credentials ! 0) 1 0) = [WARN, ERROR]
   \<and> map payload (pair_results example_definition (input_descriptors example_definition ! 1)
                    (example_credentials ! 0) 1 0)
       = [Some (MessagePayload INPUT_DESCRIPTOR_CONTEXT_CONTAINS_HASHLINK_VERIFICATION_NOT_SUPPORTED),
          Some (UriPayload (JStr ''https://www.w3.org/2018/credentials/v1'') JUndef [''hl:zQmAbc:zQmXyz''])]"
proof -
  have v: "getVersion example_definition = v1" by code_simp
  have b: "buildVcContextAndSchemaUris (credential (example_credentials ! 0))
       = Some [JStr ''https://www.w3.org/2018/credentials/v1'', JStr ''https://example.org/schema#A'']"
    by code_simp
  have s: "map status (pair_results example_definition (input_descriptors example_definition ! 1)
                    (example_credentials ! 0) 1 0) = [WARN, ERROR]"
    by code_simp
  have p: "map payload (pair_results example_definition (input_descriptors example_definition ! 1)
                    (example_credentials ! 0) 1 0)
       = [Some (MessagePayload INPUT_DESCRIPTOR_CONTEXT_CONTAINS_HASHLINK_VERIFICATION_NOT_SUPPORTED),
          Some (UriPayload (JStr ''https://www.w3.org/2018/credentials/v1'') JUndef [''hl:zQmAbc:zQmXyz''])]"
    by code_simp
  from hashlink_warning_per_declared_uri
         [OF v b, of "input_descriptors example_definition ! 1" 1 0]
  have e: "pair_results example_definition (input_descriptors example_definition ! 1)
         (example_credentials ! 0) 1 0
       = map (\<lambda>_. createWarnResultObject 1 0)
           (filter containsHashlink (map uri (schema (input_descriptors example_definition ! 1))))
         @ [match_result (example_credentials ! 0)
              [JStr ''https://www.w3.org/2018/credentials/v1'', JStr ''https://example.org/schema#A'']
              (map uri (schema (input_descriptors example_definition ! 1))) 1 0 v1]"
    by (rule conjunct1)
  show ?thesis by (intro conjI) (rule v b e s p)+
qed

text \<open>
  Claim C7 as stated fails on the \<open>message\<close> of the warning: for a descriptor that
  declares \<open>hl:zQmAbc:zQmXyz\<close> the log holds a WARN result, and no result of the log has
  the hashlink member as its message.
\<close>

theorem hashlink_warning_message_counterexample:
  "map status (the (handle_pairs
       \<lparr> id_pd = ''pd'', getVersion = v1,
         input_descriptors = [\<lparr> id_in = ''H'', schema = [\<lparr> uri = ''hl:zQmAbc:zQmXyz'' \<rparr>],
                                constraints = None \<rparr>] \<rparr>
       [\<lparr> credential = JObj [(''@context'', JStr ''hl:zQmAbc:zQmXyz'')] \<rparr>] []))
     = [WARN, INFO]
   \<and> map message (the (handle_pairs
       \<lparr> id_pd = ''pd'', getVersion = v1,
         input_descriptors = [\<lparr> id_in = ''H'', schema = [\<lparr> uri = ''hl:zQmAbc:zQmXyz'' \<rparr>],
                                constraints = None \<rparr>] \<rparr>
       [\<lparr> credential = JObj [(''@context'', JStr ''hl:zQmAbc:zQmXyz'')] \<rparr>] []))
     = [Some (Pex URI_EVALUATION_DIDNT_PASS), Some (Pex URI_EVALUATION_PASSED)]
   \<and> Pex URI_EVALUATION_DIDNT_PASS
       \<noteq> Pex INPUT_DESCRIPTOR_CONTEXT_CONTAINS_HASHLINK_VERIFICATION_NOT_SUPPORTED"
  by code_simp

lemma pair_results_path:
  assumes "e \<in> set (pair_results d inDesc wvc i j)"
  shows "input_descriptor_path e = ''$.input_descriptors['' @ string_of_nat i @ '']''"
proof (cases "buildVcContextAndSchemaUris (credential wvc)")
  case None
  with assms show ?thesis by (simp add: pair_results_def)
next
  case (Some vcUris)
  from assms show ?thesis
    unfolding pair_results_eq[OF Some]
    by (auto simp: createWarnResultObject_def match_result_def createResult_def split: if_splits)
qed

lemma new_results_path:
  assumes "e \<in> set (concat (map (\<lambda>(i, inDesc).
                   concat (map (\<lambda>(j, wvc). pair_results d inDesc wvc i j) (enumerate 0 wvcs)))
                 (enumerate 0 ds)))"
  shows "\<exists>i < length ds. input_descriptor_path e = ''$.input_descriptors['' @ string_of_nat i @ '']''"
proof -
  from assms obtain i inDesc j wvc where
    i: "(i, inDesc) \<in> set (enumerate 0 ds)" and
    e: "e \<in> set (pair_results d inDesc wvc i j)"
    by auto
  from i have "i < length ds" by (simp add: in_set_enumerate_eq)
  with pair_results_path[OF e] show ?thesis by blast
qed

lemma those_map_total:
  "\<forall>x \<in> set xs. f x = Some (g x) \<Longrightarrow> those (map f xs) = Some (map g xs)"
  by (induction xs) simp_all

lemma descriptor_of_resolved:
  "jp d (input_descriptor_path e) \<noteq> [] \<Longrightarrow>
   descriptor_of jp d e =
     Some \<lparr> id_d = id_in (hd (jp d (input_descriptor_path e))), format = ''ldp_vc'',
            path_d = verifiable_credential_path e \<rparr>"
  by (cases "jp d (input_descriptor_path e)") (simp_all add: descriptor_of_def)

lemma descriptorMap_resolved:
  assumes "\<forall>e \<in> set rs. status e = INFO \<longrightarrow> jp d (input_descriptor_path e) \<noteq> []"
  shows "descriptorMap jp d rs =
     Some (map (\<lambda>e. \<lparr> id_d = id_in (hd (jp d (input_descriptor_path e))), format = ''ldp_vc'',
                       path_d = verifiable_credential_path e \<rparr>)
               (filter (\<lambda>e. status e = INFO) rs))"
  unfolding descriptorMap_def
  by (rule those_map_total) (use assms in \<open>simp add: descriptor_of_resolved\<close>)

lemma handle_submission_eq:
  assumes build: "\<forall>w \<in> set wvcs. buildVcContextAndSchemaUris (credential w) \<noteq> None"
    and own: "\<forall>i < length (input_descriptors d).
                jp d (''$.input_descriptors['' @ string_of_nat i @ '']'') \<noteq> []"
    and earlier: "\<forall>e \<in> set (results client). status e = INFO \<longrightarrow>
                    jp d (input_descriptor_path e) \<noteq> []"
  shows "\<exists>rs. handle_pairs d wvcs (results client) = Some rs
     \<and> handle jp nanoid d wvcs client =
         Some (client \<lparr> results := rs,
                 presentationSubmission := Some
                   \<lparr> id_ps = nanoid,
                     definition_id = id_pd d,
                     descriptor_map =
                       map (\<lambda>e. \<lparr> id_d = id_in (hd (jp d (input_descriptor_path e))),
                                   format = ''ldp_vc'',
                                   path_d = verifiable_credential_path e \<rparr>)
                           (filter (\<lambda>e. status e = INFO) rs) \<rparr> \<rparr>)"
proof -
  let ?new = "concat (map (\<lambda>(i, inDesc).
                   concat (map (\<lambda>(j, wvc). pair_results d inDesc wvc i j) (enumerate 0 wvcs)))
                 (enumerate 0 (input_descriptors d)))"
  let ?rs = "results client @ ?new"
  have p: "handle_pairs d wvcs (results client) = Some ?rs"
    by (rule handle_pairs_eq[OF build])
  have r: "\<forall>e \<in> set ?rs. status e = INFO \<longrightarrow> jp d (input_descriptor_path e) \<noteq> []"
  proof (intro ballI impI)
    fix e assume e: "e \<in> set ?rs" and s: "status e = INFO"
    from e have "e \<in> set (results client) \<or> e \<in> set ?new"
      by (simp only: set_append Un_iff)
    then show "jp d (input_descriptor_path e) \<noteq> []"
    proof
      assume "e \<in> set (results client)"
      with earlier s show ?thesis by blast
    next
      assume n: "e \<in> set ?new"
      from new_results_path[OF n] own show ?thesis by auto
    qed
  qed
  have "handle jp nanoid d wvcs client =
         Some (client \<lparr> results := ?rs,
                 presentationSubmission := Some
                   \<lparr> id_ps = nanoid,
                     definition_id = id_pd d,
                     descriptor_map =
                       map (\<lambda>e. \<lparr> id_d = id_in (hd (jp d (input_descriptor_path e))),
                                   format = ''ldp_vc'',
                                   path_d = verifiable_credential_path e \<rparr>)
                           (filter (\<lambda>e. status e = INFO) ?rs) \<rparr> \<rparr>)"
    unfolding handle_def
    by (simp only: p descriptorMap_resolved[where jp = jp and d = d, OF r] bind.bind_lunit)
  with p show ?thesis by blast
qed

lemma digit_val_digit_char: "k < 10 \<Longrightarrow> digit_val (digit_char k) = k"
proof -
  have all: "\<forall>k \<in> set [0..<10]. digit_val (digit_char k) = k"
    by code_simp
  assume "k < 10"
  then have "k \<in> set [0..<10]" by simp
  with all show ?thesis by blast
qed

lemma nat_of_string_snoc: "nat_of_string (cs @ [c]) = 10 * nat_of_string cs + digit_val c"
  by (simp add: nat_of_string_def)

lemma nat_of_string_of_nat: "nat_of_string (string_of_nat n) = n"
proof (induction n rule: string_of_nat.induct)
  case (1 n)
  show ?case
  proof (cases "n < 10")
    case True
    then show ?thesis
      by (simp add: string_of_nat.simps[of n] nat_of_string_def digit_val_digit_char)
  next
    case False
    with "1.IH" have "nat_of_string (string_of_nat (n div 10)) = n div 10" by simp
    with False show ?thesis
      by (simp add: string_of_nat.simps[of n] nat_of_string_snoc digit_val_digit_char)
  qed
qed

lemma string_of_nat_inject: "string_of_nat a = string_of_nat b \<Longrightarrow> a = b"
  by (metis nat_of_string_of_nat)

lemma filter_enumerate_index:
  "filter (\<lambda>(k, x). k = i) (enumerate n xs) =
     (if n \<le> i \<and> i < n + length xs then [(i, xs ! (i - n))] else [])"
proof (induction xs arbitrary: n)
  case Nil
  show ?case by simp
next
  case (Cons x xs)
  show ?case
  proof (cases "i = n")
    case True
    with Cons.IH[of "Suc n"] show ?thesis by simp
  next
    case False
    with Cons.IH[of "Suc n"] show ?thesis by (auto simp: Suc_diff_le)
  qed
qed

lemma jp_nodes_own_path:
  assumes "i < length (input_descriptors d)"
  shows "jp_nodes d (''$.input_descriptors['' @ string_of_nat i @ '']'') = [input_descriptors d ! i]"
proof -
  have "(\<lambda>(k, x :: InputDescriptor). ''$.input_descriptors['' @ string_of_nat k @ '']''
            = ''$.input_descriptors['' @ string_of_nat i @ '']'')
        = (\<lambda>(k, x). k = i)"
    by (auto simp: fun_eq_iff dest: string_of_nat_inject)
  then show ?thesis
    using assms by (simp add: jp_nodes_def filter_enumerate_index)
qed

text \<open>
  With the resolver modelled on the addressing strings, the assumption on the paths of
  the definition holds for every definition: \<open>handle\<close> returns whenever the extraction
  does and the descriptor paths of the earlier INFO results resolve.
\<close>

lemma handle_with_jp_nodes_returns:
  assumes build: "\<forall>w \<in> set wvcs. buildVcContextAndSchemaUris (credential w) \<noteq> None"
    and earlier: "\<forall>e \<in> set (results client). status e = INFO \<longrightarrow>
                    jp_nodes d (input_descriptor_path e) \<noteq> []"
  shows "handle jp_nodes nanoid d wvcs client \<noteq> None"
proof -
  have own: "\<forall>i < length (input_descriptors d).
                jp_nodes d (''$.input_descriptors['' @ string_of_nat i @ '']'') \<noteq> []"
  proof (intro allI impI)
    fix i
    assume "i < length (input_descriptors d)"
    then have "jp_nodes d (''$.input_descriptors['' @ string_of_nat i @ '']'')
                 = [input_descriptors d ! i]"
      by (rule jp_nodes_own_path)
    then show "jp_nodes d (''$.input_descriptors['' @ string_of_nat i @ '']'') \<noteq> []"
      by (simp only: list.simps(3) not_False_eq_True)
  qed
  from handle_submission_eq[where jp = jp_nodes and d = d, OF build own earlier, of nanoid]
  show ?thesis by auto
qed

text \<open>
  Claim C2. Suppose the URI list of every credential can be extracted, the resolver finds
  a descriptor for every addressing string \<open>$.input_descriptors[i]\<close> of the definition
  and for the descriptor path of every INFO result already in the log. Then \<open>handle\<close>
  returns, and the submission of the context is replaced by a new one: its descriptor map
  has one entry for each INFO result of the whole log, in log order, with the \<open>id\<close> of
  the descriptor that the resolver finds first for the descriptor path of the result, the
  format \<open>ldp_vc\<close> and the credential path of the result; its \<open>id\<close> is the generated
  identifier and its \<open>definition_id\<close> is the \<open>id\<close> of the definition.
\<close>

theorem uri_submission_from_info_results:
  assumes build: "\<forall>w \<in> set wvcs. buildVcContextAndSchemaUris (credential w) \<noteq> None"
    and own: "\<forall>i < length (input_descriptors d).
                jp d (''$.input_descriptors['' @ string_of_nat i @ '']'') \<noteq> []"
    and earlier: "\<forall>e \<in> set (results client). status e = INFO \<longrightarrow>
                    jp d (input_descriptor_path e) \<noteq> []"
  shows "\<exists>rs. handle_pairs d wvcs (results client) = Some rs
     \<and> handle jp nanoid d wvcs client =
         Some (client \<lparr> results := rs,
                 presentationSubmission := Some
                   \<lparr> id_ps = nanoid,
                     definition_id = id_pd d,
                     descriptor_map =
                       map (\<lambda>e. \<lparr> id_d = id_in (hd (jp d (input_descriptor_path e))),
                                   format = ''ldp_vc'',
                                   path_d = verifiable_credential_path e \<rparr>)
                           (filter (\<lambda>e. status e = INFO) rs) \<rparr> \<rparr>)"
  by (rule handle_submission_eq[where jp = jp and d = d, OF build own earlier])

theorem uri_submission_from_info_results_witness:
  "(\<exists>rs. handle_pairs example_definition example_credentials (results example_client) = Some rs
        \<and> handle jp_nodes ''fresh-1'' example_definition example_credentials example_client =
           Some (example_client \<lparr> results := rs,
                 presentationSubmission := Some
                   \<lparr> id_ps = ''fresh-1'',
                     definition_id = id_pd example_definition,
                     descriptor_map =
                       map (\<lambda>e. \<lparr> id_d = id_in (hd (jp_nodes example_definition (input_descriptor_path e))),
                                   format = ''ldp_vc'',
                                   path_d = verifiable_credential_path e \<rparr>)
                           (filter (\<lambda>e. status e = INFO) rs) \<rparr> \<rparr>))
   \<and> descriptor_map_of (handle jp_nodes ''fresh-1'' example_definition example_credentials example_client)
       = Some [\<lparr> id_d = ''descriptor-H'', format = ''ldp_vc'', path_d = ''$[1]'' \<rparr>,
               \<lparr> id_d = ''descriptor-A'', format = ''ldp_vc'', path_d = ''$[0]'' \<rparr>]"
proof -
  have b: "\<forall>w \<in> set example_credentials. buildVcContextAndSchemaUris (credential w) \<noteq> None"
    by code_simp
  have o: "\<forall>i < length (input_descriptors example_definition).
         jp_nodes example_definition (''$.input_descriptors['' @ string_of_nat i @ '']'') \<noteq> []"
    by code_simp
  have e: "\<forall>e \<in> set (results example_client). status e = INFO \<longrightarrow>
         jp_nodes example_definition (input_descriptor_path e) \<noteq> []"
    by code_simp
  have m: "descriptor_map_of (handle jp_nodes ''fresh-1'' example_definition example_credentials example_client)
       = Some [\<lparr> id_d = ''descriptor-H'', format = ''ldp_vc'', path_d = ''$[1]'' \<rparr>,
               \<lparr> id_d = ''descriptor-A'', format = ''ldp_vc'', path_d = ''$[0]'' \<rparr>]"
    by code_simp
  note t = uri_submission_from_info_results
             [where wvcs = example_credentials and d = example_definition and jp = jp_nodes
                and client = example_client and nanoid = "''fresh-1''", OF b o e]
  show ?thesis by (intro conjI) (rule t m)+
qed

text \<open>
  Claim C9. Two runs of \<open>handle\<close> on the same definition and credentials, each from an
  empty result log, give the same descriptor map, entry for entry, whatever identifiers
  are generated and whatever else the two contexts hold; and one run throws exactly when
  the other does.
\<close>

theorem uri_descriptor_map_idempotent:
  assumes "results c1 = []" and "results c2 = []"
  shows "descriptor_map_of (handle jp n1 d wvcs c1) = descriptor_map_of (handle jp n2 d wvcs c2)
       \<and> (handle jp n1 d wvcs c1 = None \<longleftrightarrow> handle jp n2 d wvcs c2 = None)"
  using assms
  by (auto simp: handle_def descriptor_map_of_def split: Option.bind_splits)

theorem uri_descriptor_map_idempotent_witness:
  "results (example_client \<lparr> results := [] \<rparr>) = []
   \<and> results \<lparr> results = [], verifiableCredential = Some [], presentationSubmission = None \<rparr> = []
   \<and> descriptor_map_of (handle jp_nodes ''first-id'' example_definition example_credentials
         (example_client \<lparr> results := [] \<rparr>))
     = descriptor_map_of (handle jp_nodes ''second-id'' example_definition example_credentials
         \<lparr> results = [], verifiableCredential = Some [], presentationSubmission = None \<rparr>)
   \<and> descriptor_map_of (handle jp_nodes ''first-id'' example_definition example_credentials
         (example_client \<lparr> results := [] \<rparr>))
     = Some [\<lparr> id_d = ''descriptor-A'', format = ''ldp_vc'', path_d = ''$[0]'' \<rparr>]"
proof -
  have 1: "results (example_client \<lparr> results := [] \<rparr>) = []" by simp
  have 2: "results \<lparr> results = [], verifiableCredential = Some [], presentationSubmission = None \<rparr> = []"
    by simp
  have 3: "descriptor_map_of (handle jp_nodes ''first-id'' example_definition example_credentials
         (example_client \<lparr> results := [] \<rparr>))
     = Some [\<lparr> id_d = ''descriptor-A'', format = ''ldp_vc'', path_d = ''$[0]'' \<rparr>]"
    by code_simp
  note t = uri_descriptor_map_idempotent
             [where jp = jp_nodes and ?n1.0 = "''first-id''" and ?n2.0 = "''second-id''"
                and d = example_definition and wvcs = example_credentials, OF 1 2, THEN conjunct1]
  show ?thesis by (intro conjI) (rule 1 2 3 t)+
qed

subsection \<open>The limit disclosure handler\<close>

lemma copy_segments_agrees:
  "\<not> index_then_index ss \<Longrightarrow> copy_segments ss source cur = spec_copy_segments ss source cur"
proof (induction ss source cur rule: copy_segments.induct)
  case (1 objectCursor currentCursorInToSendObj)
  show ?case by simp
next
  case (2 s objectCursor currentCursorInToSendObj)
  show ?case by simp
next
  case (3 s s' rest objectCursor currentCursorInToSendObj)
  from "3.prems" have rest: "\<not> index_then_index (s' # rest)"
    by (cases s; cases s') simp_all
  from "3.prems" have c: "(if is_string_seg s \<and> is_string_seg s' then JObj []
        else if is_string_seg s \<and> \<not> is_string_seg s' then JArr [JObj []]
        else JObj []) = spec_container s'"
    by (cases s; cases s') (simp_all add: spec_container_def)
  show ?case
  proof (cases "js_get objectCursor s")
    case None
    then show ?thesis by simp
  next
    case (Some oc')
    from "3.IH"[OF Some refl rest] c Some show ?thesis
      by (simp add: Let_def)
  qed
qed

text \<open>
  Claim C3 says that a segment that is not the last one gets an object when the next
  segment is a property name and a list of one element otherwise. For an index that is
  followed by another index the code creates an object instead: on the path
  \<open>$.a[0][0]\<close> of \<open>{"a": [[5]]}\<close> the output is \<open>{"a": [{"0": 5}]}\<close>, where the
  container rule of the claim gives \<open>{"a": [[5]]}\<close>. On every path without two indices
  in a row the code and the rule of the claim agree (\<open>copy_segments_agrees\<close>).
\<close>

theorem nested_index_container:
  "copyResultPathToDestinationCredential [SKey ''$'', SKey ''a'', SIdx 0, SIdx 0]
       (JObj [(''a'', JArr [JArr [JNum 5]])]) (JObj []) 0 0 []
     = Some ([createSuccessResult 0 0 [SKey ''$'', SKey ''a'', SIdx 0, SIdx 0]],
             JObj [(''a'', JArr [JObj [(''0'', JNum 5)]])])
   \<and> spec_copy_segments [SKey ''a'', SIdx 0, SIdx 0]
       (JObj [(''a'', JArr [JArr [JNum 5]])]) (JObj [])
     = Some (JObj [(''a'', JArr [JArr [JNum 5]])])"
  by code_simp

lemma copy_mandatory_from_empty:
  assumes "not_nullish vc"
  shows "copyMandatoryFieldsAndDeletePredefinedKeys vc (JObj []) keys =
           Some (JObj (map (\<lambda>f. (f, js_prop vc f)) mandatoryFields), fold remove1 mandatoryFields keys)"
  unfolding copyMandatoryFieldsAndDeletePredefinedKeys_def mandatoryFields_def
  by (simp add: js_get_prop[OF assms])

lemma keys_upd: "fst ` set (upd kvs k v) = insert k (fst ` set kvs)"
proof (induction kvs)
  case Nil
  show ?case by simp
next
  case (Cons kv kvs)
  obtain k' v' where kv: "kv = (k', v')" by (cases kv)
  show ?case
  proof (cases "k' = k")
    case True
    then show ?thesis by (simp add: kv)
  next
    case False
    then show ?thesis using Cons.IH by (simp add: kv insert_commute)
  qed
qed

lemma copy_segments_keeps_keys:
  assumes "copy_segments ss oc (JObj kvs) = Some out"
  shows "\<exists>kvs'. out = JObj kvs' \<and> fst ` set kvs \<subseteq> fst ` set kvs'"
proof (cases ss)
  case Nil
  with assms show ?thesis by auto
next
  case (Cons s rest)
  show ?thesis
  proof (cases rest)
    case Nil
    with Cons assms obtain leaf where "out = js_set (JObj kvs) s leaf"
      by (auto split: Option.bind_splits)
    then show ?thesis by (simp add: keys_upd subset_insertI)
  next
    case (Cons s' rest')
    with \<open>ss = s # rest\<close> assms obtain below where "out = js_set (JObj kvs) s below"
      by (auto simp: Let_def split: Option.bind_splits)
    then show ?thesis by (simp add: keys_upd subset_insertI)
  qed
qed

lemma determineNecessaryPaths_keeps_keys:
  assumes "determineNecessaryPaths extractInputField vc (JObj kvs) flds idIdx vcIdx rs = Some (rs', out)"
  shows "\<exists>kvs'. out = JObj kvs' \<and> fst ` set kvs \<subseteq> fst ` set kvs'"
  using assms
proof (induction flds arbitrary: kvs rs)
  case Nil
  then show ?case by auto
next
  case (Cons field flds)
  note prems = Cons.prems and IH = Cons.IH
  show ?case
  proof (cases "extractInputField vc (path field)")
    case no_match: Nil
    from prems no_match have
      "determineNecessaryPaths extractInputField vc (JObj kvs) flds idIdx vcIdx
         (rs @ [createMandatoryFieldNotFoundResult idIdx vcIdx (path field)]) = Some (rs', out)"
      by simp
    then show ?thesis by (rule IH)
  next
    case match: (Cons result0 others)
    from prems match obtain z where
      cz: "copyResultPathToDestinationCredential (fst result0) vc (JObj kvs) idIdx vcIdx rs = Some z"
      and dz: "(case z of (rs1, mid) \<Rightarrow> determineNecessaryPaths extractInputField vc mid flds idIdx vcIdx rs1)
                = Some (rs', out)"
      by (auto simp: bind_eq_Some_conv)
    obtain rs1 mid where z: "z = (rs1, mid)" by (cases z)
    from cz z have
      c: "copyResultPathToDestinationCredential (fst result0) vc (JObj kvs) idIdx vcIdx rs = Some (rs1, mid)"
      by simp
    from dz z have d: "determineNecessaryPaths extractInputField vc mid flds idIdx vcIdx rs1 = Some (rs', out)"
      by simp
    from c have c': "copy_segments (tl (fst result0)) vc (JObj kvs) = Some mid"
      by (auto simp: copyResultPathToDestinationCredential_def bind_eq_Some_conv)
    from copy_segments_keeps_keys[OF c'] obtain kvs1 where
      m: "mid = JObj kvs1" and k1: "fst ` set kvs \<subseteq> fst ` set kvs1" by blast
    from IH[OF d[unfolded m]] obtain kvs' where
      o: "out = JObj kvs'" and k2: "fst ` set kvs1 \<subseteq> fst ` set kvs'" by blast
    from k1 k2 have "fst ` set kvs \<subseteq> fst ` set kvs'" by (rule order_trans)
    with o show ?thesis by (intro exI conjI)
  qed
qed

text \<open>
  Claim C4. For a credential that is not \<open>null\<close> or \<open>undefined\<close>, the copy of the
  mandatory fields into the empty output object writes the five keys \<open>@context\<close>,
  \<open>id\<close>, \<open>credentialSchema\<close>, \<open>credentialSubject\<close> and \<open>type\<close>, each with the
  value that the source has there, which is \<open>undefined\<close> for a key that the source does
  not have. The object that is built for the credential afterwards still has all five
  keys.
\<close>

theorem mandatory_fields_always_written:
  assumes "not_nullish vc"
  shows "copyMandatoryFieldsAndDeletePredefinedKeys vc (JObj []) keys =
           Some (JObj [(''@context'', js_prop vc ''@context''),
                       (''id'', js_prop vc ''id''),
                       (''credentialSchema'', js_prop vc ''credentialSchema''),
                       (''credentialSubject'', js_prop vc ''credentialSubject''),
                       (''type'', js_prop vc ''type'')],
                 fold remove1 mandatoryFields keys)
       \<and> (\<forall>rs' out. build_vcToSend extractInputField vc flds idIdx i rs = Some (rs', out) \<longrightarrow>
             (\<exists>kvs. out = JObj kvs \<and> set mandatoryFields \<subseteq> fst ` set kvs))"
proof (intro conjI allI impI)
  show "copyMandatoryFieldsAndDeletePredefinedKeys vc (JObj []) keys =
           Some (JObj [(''@context'', js_prop vc ''@context''),
                       (''id'', js_prop vc ''id''),
                       (''credentialSchema'', js_prop vc ''credentialSchema''),
                       (''credentialSubject'', js_prop vc ''credentialSubject''),
                       (''type'', js_prop vc ''type'')],
                 fold remove1 mandatoryFields keys)"
    using copy_mandatory_from_empty[OF assms, of keys] by (simp add: mandatoryFields_def)
next
  fix rs' out
  assume b: "build_vcToSend extractInputField vc flds idIdx i rs = Some (rs', out)"
  then obtain ks where
    d: "determineNecessaryPaths extractInputField vc (JObj (map (\<lambda>f. (f, js_prop vc f)) mandatoryFields))
          flds idIdx i rs = Some (rs', out)"
    by (auto simp: build_vcToSend_def copy_mandatory_from_empty[OF assms] split: Option.bind_splits)
  have "fst ` set (map (\<lambda>f. (f, js_prop vc f)) mandatoryFields) = set mandatoryFields"
    by (simp add: image_comp comp_def)
  with determineNecessaryPaths_keeps_keys[OF d]
  show "\<exists>kvs. out = JObj kvs \<and> set mandatoryFields \<subseteq> fst ` set kvs"
    by metis
qed

theorem mandatory_fields_always_written_witness:
  "copyMandatoryFieldsAndDeletePredefinedKeys example_vc (JObj [])
       [''@context'', ''id'', ''credentialSubject'', ''type'', ''issuer'']
     = Some (JObj [(''@context'', JStr ''https://www.w3.org/2018/credentials/v1''),
                   (''id'', JStr ''urn:credential:1''),
                   (''credentialSchema'', JUndef),
                   (''credentialSubject'',
                      JObj [(''degree'', JObj [(''type'', JStr ''BachelorDegree''), (''name'', JStr ''BSc'')]),
                            (''age'', JNum 30)]),
                   (''type'', JArr [JStr ''VerifiableCredential''])],
             [''issuer''])
   \<and> build_vcToSend property_path_extractor example_vc example_fields 0 0 []
     = Some ([createSuccessResult 0 0
                [SKey ''$'', SKey ''credentialSubject'', SKey ''degree'', SKey ''type''],
              createMandatoryFieldNotFoundResult 0 0 [''$.credentialSubject.salary'']],
             example_vcToSend)
   \<and> (\<exists>kvs. example_vcToSend = JObj kvs \<and> set mandatoryFields \<subseteq> fst ` set kvs)"
proof -
  have n: "not_nullish example_vc" by code_simp
  have p: "js_prop example_vc ''@context'' = JStr ''https://www.w3.org/2018/credentials/v1''"
    "js_prop example_vc ''id'' = JStr ''urn:credential:1''"
    "js_prop example_vc ''credentialSchema'' = JUndef"
    "js_prop example_vc ''credentialSubject'' =
       JObj [(''degree'', JObj [(''type'', JStr ''BachelorDegree''), (''name'', JStr ''BSc'')]),
             (''age'', JNum 30)]"
    "js_prop example_vc ''type'' = JArr [JStr ''VerifiableCredential'']"
    by code_simp+
  have k: "fold remove1 mandatoryFields [''@context'', ''id'', ''credentialSubject'', ''type'', ''issuer'']
             = [''issuer'']"
    by code_simp
  have b: "build_vcToSend property_path_extractor example_vc example_fields 0 0 []
     = Some ([createSuccessResult 0 0
                [SKey ''$'', SKey ''credentialSubject'', SKey ''degree'', SKey ''type''],
              createMandatoryFieldNotFoundResult 0 0 [''$.credentialSubject.salary'']],
             example_vcToSend)"
    by code_simp
  note t = mandatory_fields_always_written
             [OF n, where keys = "[''@context'', ''id'', ''credentialSubject'', ''type'', ''issuer'']"
                and extractInputField = property_path_extractor and flds = example_fields
                and idIdx = 0 and i = 0 and rs = "[]"]
  from t have 1: "copyMandatoryFieldsAndDeletePredefinedKeys example_vc (JObj [])
       [''@context'', ''id'', ''credentialSubject'', ''type'', ''issuer'']
     = Some (JObj [(''@context'', JStr ''https://www.w3.org/2018/credentials/v1''),
                   (''id'', JStr ''urn:credential:1''),
                   (''credentialSchema'', JUndef),
                   (''credentialSubject'',
                      JObj [(''degree'', JObj [(''type'', JStr ''BachelorDegree''), (''name'', JStr ''BSc'')]),
                            (''age'', JNum 30)]),
                   (''type'', JArr [JStr ''VerifiableCredential''])],
             [''issuer''])"
    unfolding p k by (rule conjunct1)
  from t b have 3: "\<exists>kvs. example_vcToSend = JObj kvs \<and> set mandatoryFields \<subseteq> fst ` set kvs"
    by blast
  show ?thesis by (intro conjI) (rule 1 b 3)+
qed

lemma push_loop_eq:
  "push_loop ds inputDescriptorId out vcs =
     vcs @ replicate (length (filter (\<lambda>e. id_d e = inputDescriptorId) ds)) out"
  by (induction ds arbitrary: vcs) (simp_all add: replicate_app_Cons_same)

text \<open>
  Claim C5. When the presentation of the context has a submission and the object to send
  has been built for a credential, the loop body appends that object to the credential
  list of the context once for every entry of the descriptor map whose \<open>id\<close> is the
  \<open>id\<close> of the current descriptor. An absent list is first set to the empty list, and
  the credentials already in the list stay where they are.
\<close>

theorem disclosed_credential_appended:
  assumes sub: "presentationSubmission client = Some ps"
    and built: "build_vcToSend extractInputField vc flds idIdx i (results client) = Some (rs, out)"
  shows "enforce_on_credential extractInputField vc flds idIdx i inputDescriptorId client =
           Some (client \<lparr> results := rs,
                   verifiableCredential :=
                     Some ((case verifiableCredential client of None \<Rightarrow> [] | Some vcs \<Rightarrow> vcs)
                           @ replicate
                               (length (filter (\<lambda>e. id_d e = inputDescriptorId) (descriptor_map ps)))
                               out) \<rparr>)"
  by (simp add: enforce_on_credential_def built sub copyModifiedVerifiableCredentialToExisting_def
        push_loop_eq)

theorem disclosed_credential_appended_witness:
  "enforce_on_credential property_path_extractor example_vc example_fields 0 0 ''degree''
       example_ld_client
     = Some (example_ld_client
               \<lparr> results :=
                   [createSuccessResult 0 0
                      [SKey ''$'', SKey ''credentialSubject'', SKey ''degree'', SKey ''type''],
                    createMandatoryFieldNotFoundResult 0 0 [''$.credentialSubject.salary'']],
                 verifiableCredential :=
                   Some [JStr ''already there'', example_vcToSend, example_vcToSend] \<rparr>)"
proof -
  have s: "presentationSubmission example_ld_client =
             Some \<lparr> id_ps = ''s-1'', definition_id = ''pd-2'',
                descriptor_map =
                  [\<lparr> id_d = ''degree'', format = ''ldp_vc'', path_d = ''$[0]'' \<rparr>,
                   \<lparr> id_d = ''other'', format = ''ldp_vc'', path_d = ''$[1]'' \<rparr>,
                   \<lparr> id_d = ''degree'', format = ''ldp_vc'', path_d = ''$[2]'' \<rparr>] \<rparr>"
    by (simp add: example_ld_client_def)
  have b: "build_vcToSend property_path_extractor example_vc example_fields 0 0
             (results example_ld_client)
     = Some ([createSuccessResult 0 0
                [SKey ''$'', SKey ''credentialSubject'', SKey ''degree'', SKey ''type''],
              createMandatoryFieldNotFoundResult 0 0 [''$.credentialSubject.salary'']],
             example_vcToSend)"
    by code_simp
  have v: "verifiableCredential example_ld_client = Some [JStr ''already there'']"
    by (simp add: example_ld_client_def)
  from disclosed_credential_appended[OF s b, of "''degree''"]
  show ?thesis by (simp add: v numeral_2_eq_2)
qed

lemma copy_segments_total:
  "walk oc ss \<noteq> None \<Longrightarrow> copy_segments ss oc cur \<noteq> None"
proof (induction ss oc cur rule: copy_segments.induct)
  case (1 objectCursor currentCursorInToSendObj)
  show ?case by simp
next
  case (2 s objectCursor currentCursorInToSendObj)
  then show ?case by (cases "js_get objectCursor s") simp_all
next
  case (3 s s' rest objectCursor currentCursorInToSendObj)
  show ?case
  proof (cases "js_get objectCursor s")
    case None
    with "3.prems" show ?thesis by simp
  next
    case (Some oc')
    with "3.prems" have w: "walk oc' (s' # rest) \<noteq> None" by simp
    from "3.IH"[OF Some refl w] obtain below where
      "copy_segments (s' # rest) oc'
         (if is_string_seg s \<and> is_string_seg s' then JObj []
          else if is_string_seg s \<and> \<not> is_string_seg s' then JArr [JObj []]
          else JObj []) = Some below"
      by blast
    with Some show ?thesis by (simp add: Let_def)
  qed
qed

lemma determineNecessaryPaths_total:
  assumes "paths_exist extractInputField vc"
  shows "determineNecessaryPaths extractInputField vc vcToSend flds idIdx vcIdx rs \<noteq> None"
proof (induction flds arbitrary: vcToSend rs)
  case Nil
  show ?case by simp
next
  case (Cons field flds)
  show ?case
  proof (cases "extractInputField vc (path field)")
    case no_match: Nil
    then show ?thesis using Cons.IH by simp
  next
    case match: (Cons result0 others)
    obtain pth v where r: "result0 = (pth, v)" by (cases result0)
    from assms match r have "walk vc (tl pth) \<noteq> None"
      unfolding paths_exist_def by blast
    from copy_segments_total[OF this] obtain mid where
      "copy_segments (tl pth) vc vcToSend = Some mid" by blast
    then show ?thesis using match r Cons.IH
      by (simp add: copyResultPathToDestinationCredential_def)
  qed
qed

lemma object_keys_total: "not_nullish vc \<Longrightarrow> object_keys vc \<noteq> None"
  by (cases vc) (simp_all add: not_nullish_def)

lemma build_vcToSend_total:
  assumes "not_nullish vc" and "paths_exist extractInputField vc"
  shows "build_vcToSend extractInputField vc flds idIdx i rs \<noteq> None"
proof -
  from object_keys_total[OF assms(1)] obtain keys where k: "object_keys vc = Some keys" by blast
  show ?thesis
    unfolding build_vcToSend_def
    by (simp add: k copy_mandatory_from_empty[OF assms(1)] determineNecessaryPaths_total[OF assms(2)])
qed

lemma enforce_on_credential_total:
  assumes "not_nullish vc" and "paths_exist extractInputField vc"
  shows "enforce_on_credential extractInputField vc flds idIdx i inputDescriptorId client \<noteq> None"
proof -
  from build_vcToSend_total[OF assms] obtain rs out where
    b: "build_vcToSend extractInputField vc flds idIdx i (results client) = Some (rs, out)"
    by (metis not_None_eq surj_pair)
  show ?thesis
    unfolding enforce_on_credential_def
    by (auto simp: b copyModifiedVerifiableCredentialToExisting_def Let_def)
qed

lemma credentials_loop_total:
  assumes "\<forall>vc \<in> set vcs. not_nullish vc \<and> paths_exist extractInputField vc"
  shows "credentials_loop extractInputField vcs flds idIdx i inputDescriptorId client \<noteq> None"
  using assms
proof (induction vcs arbitrary: i client)
  case Nil
  show ?case by simp
next
  case (Cons vc vcs)
  from Cons.prems have "not_nullish vc" and "paths_exist extractInputField vc" by simp_all
  from enforce_on_credential_total[OF this] obtain client' where
    e: "enforce_on_credential extractInputField vc flds idIdx i inputDescriptorId client = Some client'"
    by blast
  from Cons.prems have "\<forall>vc \<in> set vcs. not_nullish vc \<and> paths_exist extractInputField vc" by simp
  from Cons.IH[OF this] e show ?case by simp
qed

lemma ld_descriptors_loop_total:
  assumes "\<forall>vc \<in> set vcs. not_nullish vc \<and> paths_exist extractInputField vc"
  shows "ld_descriptors_loop extractInputField (Some vcs) ds i client \<noteq> None"
proof (induction ds arbitrary: i client)
  case Nil
  show ?case by simp
next
  case (Cons inDesc ds)
  show ?case
  proof (cases "constraints inDesc")
    case None
    then show ?thesis using Cons.IH by simp
  next
    case (Some cons)
    show ?thesis
    proof (cases "limit_disclosure cons = Some Required")
      case True
      from credentials_loop_total[OF assms] obtain client' where
        "credentials_loop extractInputField vcs (fields_c cons) i 0 (id_in inDesc) client = Some client'"
        by blast
      with Some True Cons.IH show ?thesis
        by (simp add: limitDisclosureShouldBeEnforced_def)
    next
      case False
      with Some Cons.IH show ?thesis by simp
    qed
  qed
qed

lemma determineNecessaryPaths_no_match:
  assumes "\<forall>f \<in> set flds. extractInputField vc (path f) = []"
  shows "determineNecessaryPaths extractInputField vc vcToSend flds idIdx vcIdx rs =
           Some (rs @ map (\<lambda>f. createMandatoryFieldNotFoundResult idIdx vcIdx (path f)) flds, vcToSend)"
  using assms by (induction flds arbitrary: rs) simp_all

text \<open>
  Claim C6. A field whose expressions match nothing in the credential adds exactly one
  ERROR result, with the requested path of the field as payload and the message that the
  mandatory field is not present, and the loop goes on with the next field; when no field
  matches, the loop over the fields returns with one such result for each field. No
  exception is thrown: when no credential is \<open>null\<close> or \<open>undefined\<close> and the paths that
  the resolver reports lead through the credential, \<open>handle\<close> returns for every
  definition.
\<close>

theorem missing_field_is_logged_not_thrown:
  "(extractInputField vc (path field) = [] \<longrightarrow>
      determineNecessaryPaths extractInputField vc vcToSend (field # flds) idIdx vcIdx rs =
      determineNecessaryPaths extractInputField vc vcToSend flds idIdx vcIdx
        (rs @ [\<lparr> input_descriptor_path = ''$.input_descriptors['' @ string_of_nat idIdx @ '']'',
                 verifiable_credential_path = ''$.verifiableCredential['' @ string_of_nat vcIdx @ '']'',
                 evaluator = ''LimitDisclosureEvaluation'',
                 status = ERROR,
                 message = Some (Literal ''mandatory field not present in the verifiableCredential''),
                 payload = Some (PathPayload (path field)) \<rparr>]))
   \<and> ((\<forall>f \<in> set flds. extractInputField vc (path f) = []) \<longrightarrow>
      determineNecessaryPaths extractInputField vc vcToSend flds idIdx vcIdx rs =
        Some (rs @ map (\<lambda>f. createMandatoryFieldNotFoundResult idIdx vcIdx (path f)) flds, vcToSend))
   \<and> ((\<forall>vc \<in> set vcs. not_nullish vc \<and> paths_exist extractInputField vc) \<longrightarrow>
      (\<exists>client'. ld_handle extractInputField pd (Some vcs) client = Some client'))"
proof (intro conjI impI)
  assume "extractInputField vc (path field) = []"
  then show "determineNecessaryPaths extractInputField vc vcToSend (field # flds) idIdx vcIdx rs =
      determineNecessaryPaths extractInputField vc vcToSend flds idIdx vcIdx
        (rs @ [\<lparr> input_descriptor_path = ''$.input_descriptors['' @ string_of_nat idIdx @ '']'',
                 verifiable_credential_path = ''$.verifiableCredential['' @ string_of_nat vcIdx @ '']'',
                 evaluator = ''LimitDisclosureEvaluation'',
                 status = ERROR,
                 message = Some (Literal ''mandatory field not present in the verifiableCredential''),
                 payload = Some (PathPayload (path field)) \<rparr>])"
    by (simp add: createMandatoryFieldNotFoundResult_def ld_getName_def)
next
  assume "\<forall>f \<in> set flds. extractInputField vc (path f) = []"
  then show "determineNecessaryPaths extractInputField vc vcToSend flds idIdx vcIdx rs =
        Some (rs @ map (\<lambda>f. createMandatoryFieldNotFoundResult idIdx vcIdx (path f)) flds, vcToSend)"
    by (rule determineNecessaryPaths_no_match)
next
  assume "\<forall>vc \<in> set vcs. not_nullish vc \<and> paths_exist extractInputField vc"
  from ld_descriptors_loop_total[OF this]
  show "\<exists>client'. ld_handle extractInputField pd (Some vcs) client = Some client'"
    unfolding ld_handle_def by blast
qed

lemma property_path_extractor_paths_exist: "paths_exist property_path_extractor vc"
  unfolding paths_exist_def
proof (intro allI impI)
  fix es pth v others
  assume "property_path_extractor vc es = (pth, v) # others"
  then show "walk vc (tl pth) \<noteq> None"
  proof (induction es)
    case Nil
    then show ?case by simp
  next
    case (Cons e es)
    show ?case
    proof (cases "walk vc (tl (segments_of e))")
      case None
      with Cons show ?thesis by simp
    next
      case (Some w)
      show ?thesis
      proof (cases "w = JUndef")
        case True
        with Some Cons show ?thesis by simp
      next
        case False
        with Some Cons.prems have "pth = segments_of e" by simp
        with Some show ?thesis by simp
      qed
    qed
  qed
qed

theorem missing_field_is_logged_not_thrown_witness:
  "determineNecessaryPaths property_path_extractor example_vc (JObj [])
       (\<lparr> path = [''$.credentialSubject.salary''] \<rparr> # example_fields) 0 0 []
     = determineNecessaryPaths property_path_extractor example_vc (JObj []) example_fields 0 0
         [\<lparr> input_descriptor_path = ''$.input_descriptors[0]'',
            verifiable_credential_path = ''$.verifiableCredential[0]'',
            evaluator = ''LimitDisclosureEvaluation'',
            status = ERROR,
            message = Some (Literal ''mandatory field not present in the verifiableCredential''),
            payload = Some (PathPayload [''$.credentialSubject.salary'']) \<rparr>]
   \<and> (\<exists>client'. ld_handle property_path_extractor example_ld_definition (Some [example_vc])
                    example_ld_client = Some client')
   \<and> map status (results (the (ld_handle property_path_extractor example_ld_definition
                                  (Some [example_vc]) example_ld_client)))
     = [INFO, ERROR]"
proof -
  have e: "property_path_extractor example_vc (path \<lparr> path = [''$.credentialSubject.salary''] \<rparr>) = []"
    by code_simp
  have n: "\<forall>vc \<in> set [example_vc]. not_nullish vc \<and> paths_exist property_path_extractor vc"
    by (simp add: property_path_extractor_paths_exist example_vc_def not_nullish_def)
  have s: "string_of_nat 0 = ''0''" by code_simp
  note t = missing_field_is_logged_not_thrown
             [where extractInputField = property_path_extractor and vc = example_vc
                and field = "\<lparr> path = [''$.credentialSubject.salary''] \<rparr>"
                and flds = example_fields and vcToSend = "JObj []" and idIdx = 0 and vcIdx = 0
                and rs = "[]" and vcs = "[example_vc]" and pd = example_ld_definition
                and client = example_ld_client]
  from t e have 1: "determineNecessaryPaths property_path_extractor example_vc (JObj [])
       (\<lparr> path = [''$.credentialSubject.salary''] \<rparr> # example_fields) 0 0 []
     = determineNecessaryPaths property_path_extractor example_vc (JObj []) example_fields 0 0
         [\<lparr> input_descriptor_path = ''$.input_descriptors[0]'',
            verifiable_credential_path = ''$.verifiableCredential[0]'',
            evaluator = ''LimitDisclosureEvaluation'',
            status = ERROR,
            message = Some (Literal ''mandatory field not present in the verifiableCredential''),
            payload = Some (PathPayload [''$.credentialSubject.salary'']) \<rparr>]"
    by (simp add: s)
  from t n have 2: "\<exists>client'. ld_handle property_path_extractor example_ld_definition (Some [example_vc])
                    example_ld_client = Some client'"
    by blast
  have 3: "map status (results (the (ld_handle property_path_extractor example_ld_definition
                                  (Some [example_vc]) example_ld_client)))
     = [INFO, ERROR]"
    by code_simp
  show ?thesis by (intro conjI) (rule 1 2 3)+
qed

end
